theory Spec2Isabelle
  imports Main "HOL-Library.Word" "HOL-Library.Signed_Division" "HOL-Library.Sublist"
begin

section \<open>Container databases of iconservice: ArrayDB, DictDB, VarDB\<close>

text \<open>
  A shallow embedding of \<^verbatim>\<open>iconservice/iconscore/icon_container_db.py\<close>.
  Python values are a datatype, Python exceptions are the left summand of a sum type,
  and the state database is a map from byte keys to byte values that every operation
  takes and returns.
\<close>

subsection \<open>Bytes, exceptions, Python values\<close>

type_synonym byte = "8 word"
type_synonym bytes = "byte list"

text \<open>
  The exceptions the module raises itself carry their message; the three others are
  raised by Python built-ins the module calls (\<^verbatim>\<open>bytes([n])\<close> with \<open>n > 255\<close>,
  \<^verbatim>\<open>str.encode\<close>, \<^verbatim>\<open>bytes.decode\<close>).
\<close>

datatype error =
    InvalidParamsException string
  | InvalidContainerAccessException string
  | ValueError
  | UnicodeEncodeError
  | UnicodeDecodeError

text \<open>Sequencing of computations that may raise.\<close>

definition bind_err :: "error + 'a \<Rightarrow> ('a \<Rightarrow> error + 'b) \<Rightarrow> error + 'b" where
  "bind_err m f = (case m of Inl e \<Rightarrow> Inl e | Inr x \<Rightarrow> f x)"

text \<open>
  Modelled from the spec: the class \<^verbatim>\<open>Address\<close> (\<^verbatim>\<open>iconservice/base/address.py\<close>)
  is not among the sources. The specification describes an address by its fixed-width
  byte representation and says that decoding reinterprets bytes without validation, so
  an address is represented by that byte string.
\<close>

datatype address = Address bytes

text \<open>Modelled from the spec: \<^verbatim>\<open>Address.to_bytes\<close>, the byte representation.\<close>

fun to_bytes :: "address \<Rightarrow> bytes" where
  "to_bytes (Address bs) = bs"

text \<open>
  Modelled from the spec: \<^verbatim>\<open>Address.from_bytes\<close>, the bytes reinterpreted as an
  address.
\<close>

definition from_bytes :: "bytes \<Rightarrow> address" where
  "from_bytes bs = Address bs"

text \<open>
  A Python value as the container layer can meet it. A \<^verbatim>\<open>str\<close> is its list of code
  points. \<open>POther\<close> stands for a value of any other class (a float, a list, ...).
\<close>

datatype pyval =
    PNone
  | PInt int
  | PBool bool
  | PStr "nat list"
  | PAddress address
  | PBytes bytes
  | POther

text \<open>
  A Python type object passed as \<^verbatim>\<open>value_type\<close>; \<open>TOther\<close> is any type other than
  the five the layer supports.
\<close>

datatype pytype = TInt | TStr | TAddress | TBytes | TBool | TOther

subsection \<open>Integers as bytes\<close>

text \<open>
  Modelled from the spec: \<^verbatim>\<open>int_to_bytes\<close> and \<^verbatim>\<open>bytes_to_int\<close> live in
  \<^verbatim>\<open>iconservice/utils\<close>, which is not among the sources. The specification
  gives the integer encoding as the minimal two's-complement big-endian bytes, and
  \<^verbatim>\<open>tests/legacy_unittest/test_utils.py\<close> pins it down: \<open>0x80\<close> is \<open>00 80\<close>, \<open>-0x80\<close>
  is the single byte \<open>80\<close>; a boolean is one byte, so \<open>0\<close> is the single byte \<open>00\<close>.
  The last byte is \<open>n mod 256\<close>, the bytes before it encode \<open>n div 256\<close> (rounding
  down), and one byte is enough between \<open>-128\<close> and \<open>127\<close>.
\<close>

function int_to_bytes :: "int \<Rightarrow> bytes" where
  "int_to_bytes n =
     (if - 128 \<le> n \<and> n < 128 then [of_int n]
      else int_to_bytes (n div 256) @ [of_int n])"
  by pat_completeness auto
termination
  by (relation "measure (\<lambda>n. nat \<bar>n\<bar>)") auto

declare int_to_bytes.simps [simp del]

text \<open>
  Modelled from the spec: \<^verbatim>\<open>bytes_to_int\<close>, the inverse reading, big-endian two's
  complement; the first byte carries the sign and the empty byte string is \<open>0\<close>.
\<close>

fun bytes_to_int :: "bytes \<Rightarrow> int" where
  "bytes_to_int [] = 0"
| "bytes_to_int (b # bs) = foldl (\<lambda>acc x. acc * 256 + uint x) (sint b) bs"

subsection \<open>The V2 frame\<close>

text \<open>
  \<^verbatim>\<open>bytes([n])\<close> is the one-byte string of \<open>n\<close> and raises \<^verbatim>\<open>ValueError\<close> outside
  \<open>range(256)\<close>.
\<close>

definition py_bytes1 :: "int \<Rightarrow> error + bytes" where
  "py_bytes1 n = (if 0 \<le> n \<and> n < 256 then Inr [of_int n] else Inl ValueError)"

text \<open>
  \<^verbatim>\<open>rlp_get_bytes\<close>. The source computes \<^verbatim>\<open>int(x / 256)\<close>: a float division and a
  truncation towards zero. For \<open>\<bar>x\<bar> < 2 ^ 53\<close> the float quotient is exact and the
  result is the truncating integer quotient \<open>x sdiv 256\<close>, which is what is written
  here; \<open>x\<close> is the length of a byte string, so statements about the frame carry the
  bound \<open>length b < 2 ^ 53\<close> where the long form matters. \<^verbatim>\<open>x % 256\<close> is Python's
  modulo, which rounds down as \<open>mod\<close> does.
\<close>

function rlp_get_bytes :: "int \<Rightarrow> bytes" where
  "rlp_get_bytes x =
     (if x = 0 then [] else rlp_get_bytes (x sdiv 256) @ [of_int (x mod 256)])"
  by pat_completeness auto
termination
proof (relation "measure (\<lambda>x. nat \<bar>x\<bar>)")
  show "wf (measure (\<lambda>x. nat \<bar>x\<bar>))" by simp
next
  fix x :: int
  assume "x \<noteq> 0"
  then have "\<bar>x sdiv 256\<bar> = \<bar>x\<bar> div 256"
    by (simp add: signed_divide_int_def abs_mult abs_sgn_eq)
  moreover have "\<bar>x\<bar> div 256 < \<bar>x\<bar>"
    using \<open>x \<noteq> 0\<close> by (simp add: int_div_less_self)
  ultimately show "(x sdiv 256, x) \<in> measure (\<lambda>x. nat \<bar>x\<bar>)"
    by simp
qed

declare rlp_get_bytes.simps [simp del]

definition rlp_encode_bytes :: "bytes \<Rightarrow> error + bytes" where
  "rlp_encode_bytes b =
     (let blen = int (length b) in
      if blen = 1 \<and> hd b < 0x80 then Inr b
      else if blen \<le> 55 then
        bind_err (py_bytes1 (blen + 0x80)) (\<lambda>p. Inr (p @ b))
      else
        let len_bytes = rlp_get_bytes blen in
        bind_err (py_bytes1 (int (length len_bytes) + 0x80 + 55))
          (\<lambda>p. Inr (p @ len_bytes @ b)))"

subsection \<open>UTF-8\<close>

text \<open>
  \<^verbatim>\<open>str.encode('utf-8')\<close> and \<^verbatim>\<open>bytes.decode()\<close> are Python built-ins; they are
  written out here as the strict UTF-8 codec. Encoding raises on a surrogate code point
  (\<open>0xD800\<close> to \<open>0xDFFF\<close>); a Python string has no code point from \<open>0x110000\<close> on,
  and the model rejects one likewise. Decoding raises on a truncated or overlong
  sequence, on a surrogate and on a value from \<open>0x110000\<close> on.
\<close>

definition utf8_encode_cp :: "nat \<Rightarrow> error + nat list" where
  "utf8_encode_cp c =
     (if c < 0x80 then Inr [c]
      else if c < 0x800 then Inr [0xC0 + c div 64, 0x80 + c mod 64]
      else if 0xD800 \<le> c \<and> c < 0xE000 then Inl UnicodeEncodeError
      else if c < 0x10000 then
        Inr [0xE0 + c div 4096, 0x80 + c div 64 mod 64, 0x80 + c mod 64]
      else if c < 0x110000 then
        Inr [0xF0 + c div 262144, 0x80 + c div 4096 mod 64,
             0x80 + c div 64 mod 64, 0x80 + c mod 64]
      else Inl UnicodeEncodeError)"

fun utf8_encode_nat :: "nat list \<Rightarrow> error + nat list" where
  "utf8_encode_nat [] = Inr []"
| "utf8_encode_nat (c # cs) =
     bind_err (utf8_encode_cp c) (\<lambda>bs.
     bind_err (utf8_encode_nat cs) (\<lambda>rest. Inr (bs @ rest)))"

definition utf8_encode :: "nat list \<Rightarrow> error + bytes" where
  "utf8_encode s = bind_err (utf8_encode_nat s) (\<lambda>ns. Inr (map of_nat ns))"

definition is_cont :: "nat \<Rightarrow> bool" where
  "is_cont b \<longleftrightarrow> 0x80 \<le> b \<and> b < 0xC0"

definition cons_ok :: "'a \<Rightarrow> error + 'a list \<Rightarrow> error + 'a list" where
  "cons_ok c m = (case m of Inl e \<Rightarrow> Inl e | Inr cs \<Rightarrow> Inr (c # cs))"

fun utf8_decode_nat :: "nat list \<Rightarrow> error + nat list" where
  "utf8_decode_nat [] = Inr []"
| "utf8_decode_nat (b0 # bs) =
     (if b0 < 0x80 then cons_ok b0 (utf8_decode_nat bs)
      else if b0 < 0xC2 then Inl UnicodeDecodeError
      else if b0 < 0xE0 then
        (case bs of
           b1 # r \<Rightarrow>
             if is_cont b1
             then cons_ok ((b0 - 0xC0) * 64 + (b1 - 0x80)) (utf8_decode_nat r)
             else Inl UnicodeDecodeError
         | _ \<Rightarrow> Inl UnicodeDecodeError)
      else if b0 < 0xF0 then
        (case bs of
           b1 # b2 # r \<Rightarrow>
             let c = (b0 - 0xE0) * 4096 + (b1 - 0x80) * 64 + (b2 - 0x80) in
             if is_cont b1 \<and> is_cont b2 \<and> 0x800 \<le> c \<and> \<not> (0xD800 \<le> c \<and> c < 0xE000)
             then cons_ok c (utf8_decode_nat r)
             else Inl UnicodeDecodeError
         | _ \<Rightarrow> Inl UnicodeDecodeError)
      else if b0 < 0xF5 then
        (case bs of
           b1 # b2 # b3 # r \<Rightarrow>
             let c = (b0 - 0xF0) * 262144 + (b1 - 0x80) * 4096
                     + (b2 - 0x80) * 64 + (b3 - 0x80) in
             if is_cont b1 \<and> is_cont b2 \<and> is_cont b3 \<and> 0x10000 \<le> c \<and> c < 0x110000
             then cons_ok c (utf8_decode_nat r)
             else Inl UnicodeDecodeError
         | _ \<Rightarrow> Inl UnicodeDecodeError)
      else Inl UnicodeDecodeError)"

definition utf8_decode :: "bytes \<Rightarrow> error + nat list" where
  "utf8_decode b = utf8_decode_nat (map unat b)"

subsection \<open>Key and value codec\<close>

text \<open>
  \<^verbatim>\<open>ContainerUtil.encode_key\<close>. The \<^verbatim>\<open>isinstance(key, int)\<close> test comes first and a
  Python \<^verbatim>\<open>bool\<close> is an \<^verbatim>\<open>int\<close>, so a boolean takes the integer branch.
\<close>

fun encode_key :: "pyval \<Rightarrow> error + bytes" where
  "encode_key PNone = Inl (InvalidParamsException ''key is None'')"
| "encode_key (PInt n) = Inr (int_to_bytes n)"
| "encode_key (PBool b) = Inr (int_to_bytes (if b then 1 else 0))"
| "encode_key (PStr s) = utf8_encode s"
| "encode_key (PAddress a) = Inr (to_bytes a)"
| "encode_key (PBytes b) = Inr b"
| "encode_key POther = Inl (InvalidParamsException ''Unsupported key type'')"

definition get_encoded_key_v1 :: "pyval \<Rightarrow> error + bytes" where
  "get_encoded_key_v1 key = encode_key key"

definition get_encoded_key_v2 :: "pyval \<Rightarrow> error + bytes" where
  "get_encoded_key_v2 key = bind_err (encode_key key) rlp_encode_bytes"

text \<open>
  \<^verbatim>\<open>ContainerUtil.encode_value\<close>. Again the integer test comes first, so the
  \<^verbatim>\<open>isinstance(value, bool)\<close> branch of the source is never reached and a boolean is
  encoded by \<open>int_to_bytes\<close> directly. \<^verbatim>\<open>None\<close> is one of the unsupported values.
\<close>

fun encode_value :: "pyval \<Rightarrow> error + bytes" where
  "encode_value (PInt n) = Inr (int_to_bytes n)"
| "encode_value (PBool b) = Inr (int_to_bytes (if b then 1 else 0))"
| "encode_value (PStr s) = utf8_encode s"
| "encode_value (PAddress a) = Inr (to_bytes a)"
| "encode_value (PBytes b) = Inr b"
| "encode_value PNone = Inl (InvalidParamsException ''Unsupported value type'')"
| "encode_value POther = Inl (InvalidParamsException ''Unsupported value type'')"

fun get_default_value :: "pytype \<Rightarrow> pyval" where
  "get_default_value TInt = PInt 0"
| "get_default_value TStr = PStr []"
| "get_default_value TBool = PBool False"
| "get_default_value _ = PNone"

text \<open>
  \<^verbatim>\<open>ContainerUtil.decode_object\<close>: an absent value gives the default; otherwise a
  first chain of tests handles \<^verbatim>\<open>int\<close>, \<^verbatim>\<open>str\<close> and \<^verbatim>\<open>Address\<close>, and a second,
  separate chain handles \<^verbatim>\<open>bool\<close> and \<^verbatim>\<open>bytes\<close>; \<^verbatim>\<open>obj_value\<close> starts as
  \<^verbatim>\<open>None\<close>.
\<close>

definition decode_object :: "bytes option \<Rightarrow> pytype \<Rightarrow> error + pyval" where
  "decode_object value value_type =
     (case value of
        None \<Rightarrow> Inr (get_default_value value_type)
      | Some v \<Rightarrow>
          bind_err
            (if value_type = TInt then Inr (PInt (bytes_to_int v))
             else if value_type = TStr then bind_err (utf8_decode v) (\<lambda>s. Inr (PStr s))
             else if value_type = TAddress then Inr (PAddress (from_bytes v))
             else Inr PNone)
            (\<lambda>obj_value.
               if value_type = TBool then Inr (PBool (bytes_to_int v \<noteq> 0))
               else if value_type = TBytes then Inr (PBytes v)
               else Inr obj_value))"

subsection \<open>The state database\<close>

text \<open>
  The classes \<^verbatim>\<open>IconScoreDatabase\<close> and \<^verbatim>\<open>IconScoreSubDatabase\<close>
  (\<^verbatim>\<open>iconservice/database/db.py\<close>) are not among the sources; the container module
  only calls their \<^verbatim>\<open>get\<close>, \<^verbatim>\<open>put\<close>, \<^verbatim>\<open>delete\<close>, \<^verbatim>\<open>get_sub_db\<close> and \<^verbatim>\<open>is_root\<close>.
  The specification describes the store by this interface: every key and every prefix
  arrives as two candidates, one per encoding scheme, each a list of byte strings, and
  the store resolves the candidates against the scheme that is active; a namespaced
  handle prepends its prefix to every operation and can be namespaced further.
\<close>

text \<open>Modelled from the spec: the two key-encoding schemes a store can resolve against.\<close>

datatype scheme = V1 | V2

text \<open>
  Modelled from the spec: the argument \<^verbatim>\<open>[[...], [...]]\<close> of every store call, the V1
  candidate and the V2 candidate, each a list of byte strings.
\<close>

type_synonym key_candidates = "bytes list \<times> bytes list"

text \<open>
  Modelled from the spec: the store itself, the scheme that is active and the entries,
  a map from byte keys to byte values.
\<close>

record store =
  scheme :: scheme
  entries :: "bytes \<rightharpoonup> bytes"

text \<open>
  Modelled from the spec: a handle on the store (the \<^verbatim>\<open>db\<close> objects of the source),
  with its \<^verbatim>\<open>is_root\<close> flag and the prefix candidates it prepends.
\<close>

record db_handle =
  db_is_root :: bool
  db_prefix :: key_candidates

text \<open>Modelled from the spec: the candidate that a scheme selects.\<close>

fun candidate :: "scheme \<Rightarrow> key_candidates \<Rightarrow> bytes list" where
  "candidate V1 (k1, k2) = k1"
| "candidate V2 (k1, k2) = k2"

text \<open>
  Modelled from the spec: the byte key an operation of a handle uses on the entries, the
  handle's prefix parts followed by the key's parts, under the active scheme.
\<close>

definition final_key :: "scheme \<Rightarrow> db_handle \<Rightarrow> key_candidates \<Rightarrow> bytes" where
  "final_key sch db key = concat (candidate sch (db_prefix db)) @ concat (candidate sch key)"

text \<open>Modelled from the spec: \<^verbatim>\<open>db.get(key)\<close>, the value stored or nothing.\<close>

definition db_get :: "store \<Rightarrow> db_handle \<Rightarrow> key_candidates \<Rightarrow> bytes option" where
  "db_get st db key = entries st (final_key (scheme st) db key)"

text \<open>Modelled from the spec: \<^verbatim>\<open>db.put(key, value)\<close>.\<close>

definition db_put :: "store \<Rightarrow> db_handle \<Rightarrow> key_candidates \<Rightarrow> bytes \<Rightarrow> store" where
  "db_put st db key v = st\<lparr>entries := (entries st)(final_key (scheme st) db key \<mapsto> v)\<rparr>"

text \<open>Modelled from the spec: \<^verbatim>\<open>db.delete(key)\<close>, which erases exactly that entry.\<close>

definition db_delete :: "store \<Rightarrow> db_handle \<Rightarrow> key_candidates \<Rightarrow> store" where
  "db_delete st db key = st\<lparr>entries := (entries st)(final_key (scheme st) db key := None)\<rparr>"

text \<open>
  Modelled from the spec: \<^verbatim>\<open>db.get_sub_db(prefix)\<close>, a namespaced handle, no longer
  a root, whose prefix is the old one followed by the new parts.
\<close>

definition get_sub_db :: "db_handle \<Rightarrow> key_candidates \<Rightarrow> db_handle" where
  "get_sub_db db p =
     \<lparr>db_is_root = False,
      db_prefix = (fst (db_prefix db) @ fst p, snd (db_prefix db) @ snd p)\<rparr>"

subsection \<open>Prefixes and keys\<close>

definition ARRAY_DB_ID :: bytes where "ARRAY_DB_ID = [0x00]"
definition DICT_DB_ID :: bytes where "DICT_DB_ID = [0x01]"
definition VAR_DB_ID :: bytes where "VAR_DB_ID = [0x02]"

text \<open>
  The expression \<^verbatim>\<open>[[get_encoded_key_v1(key)], [get_encoded_key_v2(key)]]\<close>, which
  the source writes out wherever it addresses an entry.
\<close>

definition encoded_key :: "pyval \<Rightarrow> error + key_candidates" where
  "encoded_key key =
     bind_err (get_encoded_key_v1 key) (\<lambda>k1.
     bind_err (get_encoded_key_v2 key) (\<lambda>k2. Inr ([k1], [k2])))"

datatype container_cls = ArrayDB_cls | DictDB_cls | VarDB_cls

definition create_db_prefix :: "container_cls \<Rightarrow> pyval \<Rightarrow> error + key_candidates" where
  "create_db_prefix cls var_key =
     bind_err
       (case cls of
          ArrayDB_cls \<Rightarrow> Inr ARRAY_DB_ID
        | DictDB_cls \<Rightarrow> Inr DICT_DB_ID
        | VarDB_cls \<Rightarrow> Inl (InvalidParamsException ''Unsupported container class''))
       (\<lambda>container_id.
          bind_err (get_encoded_key_v1 var_key) (\<lambda>k1.
          bind_err (get_encoded_key_v2 var_key) (\<lambda>k2.
          Inr ([container_id, k1], [container_id, k2]))))"

subsection \<open>ArrayDB\<close>

record ArrayDB =
  arr_db :: db_handle
  arr_value_type :: pytype
  arr_size :: int

text \<open>
  The class attribute \<^verbatim>\<open>__SIZE_BYTE_KEY = [[get_encoded_key_v1('size')], [b'']]\<close>,
  evaluated once when the class is created.
\<close>

definition SIZE_BYTE_KEY :: key_candidates where
  "SIZE_BYTE_KEY =
     (case get_encoded_key_v1 (PStr [0x73, 0x69, 0x7A, 0x65]) of
        Inr k \<Rightarrow> ([k], [[]])
      | Inl e \<Rightarrow> ([], [[]]))"

text \<open>
  \<^verbatim>\<open>__get_size_from_db\<close>: \<open>decode_object\<close> at type \<^verbatim>\<open>int\<close> always gives an integer.
\<close>

definition get_size_from_db :: "store \<Rightarrow> db_handle \<Rightarrow> int" where
  "get_size_from_db st db =
     (case decode_object (db_get st db SIZE_BYTE_KEY) TInt of
        Inr (PInt n) \<Rightarrow> n
      | _ \<Rightarrow> 0)"

definition ArrayDB_init :: "pyval \<Rightarrow> db_handle \<Rightarrow> pytype \<Rightarrow> store \<Rightarrow> error + ArrayDB" where
  "ArrayDB_init var_key db value_type st =
     bind_err (create_db_prefix ArrayDB_cls var_key) (\<lambda>prefix.
       let sub = get_sub_db db prefix in
       Inr \<lparr>arr_db = sub, arr_value_type = value_type, arr_size = get_size_from_db st sub\<rparr>)"

text \<open>\<^verbatim>\<open>isinstance(index, int)\<close>: an integer or a boolean, read as an integer.\<close>

fun index_int :: "pyval \<Rightarrow> int option" where
  "index_int (PInt i) = Some i"
| "index_int (PBool b) = Some (if b then 1 else 0)"
| "index_int _ = None"

text \<open>The class method \<^verbatim>\<open>_get\<close>; \<open>sz\<close> is the source's \<^verbatim>\<open>size\<close>.\<close>

definition ArrayDB__get :: "store \<Rightarrow> db_handle \<Rightarrow> int \<Rightarrow> pyval \<Rightarrow> pytype \<Rightarrow> error + pyval" where
  "ArrayDB__get st db sz index value_type =
     (case index_int index of
        None \<Rightarrow> Inl (InvalidParamsException ''Invalid index type: not an integer'')
      | Some i \<Rightarrow>
          let i = (if i < 0 then i + sz else i) in
          if 0 \<le> i \<and> i < sz then
            bind_err (encoded_key (PInt i)) (\<lambda>key. decode_object (db_get st db key) value_type)
          else Inl (InvalidParamsException ''ArrayDB out of index''))"

definition ArrayDB_getitem :: "ArrayDB \<Rightarrow> store \<Rightarrow> pyval \<Rightarrow> error + pyval" where
  "ArrayDB_getitem a st index =
     ArrayDB__get st (arr_db a) (arr_size a) index (arr_value_type a)"

definition ArrayDB_get :: "ArrayDB \<Rightarrow> store \<Rightarrow> pyval \<Rightarrow> error + pyval" where
  "ArrayDB_get a st index = ArrayDB_getitem a st index"

text \<open>\<^verbatim>\<open>__put\<close> and \<^verbatim>\<open>__set_size\<close>.\<close>

definition ArrayDB__put :: "ArrayDB \<Rightarrow> store \<Rightarrow> int \<Rightarrow> pyval \<Rightarrow> error + store" where
  "ArrayDB__put a st index v =
     bind_err (encoded_key (PInt index)) (\<lambda>key.
     bind_err (encode_value v) (\<lambda>bv. Inr (db_put st (arr_db a) key bv)))"

definition ArrayDB__set_size :: "ArrayDB \<Rightarrow> store \<Rightarrow> int \<Rightarrow> error + ArrayDB \<times> store" where
  "ArrayDB__set_size a st sz =
     bind_err (encode_value (PInt sz)) (\<lambda>bv.
       Inr (a\<lparr>arr_size := sz\<rparr>, db_put st (arr_db a) SIZE_BYTE_KEY bv))"

definition ArrayDB_put :: "ArrayDB \<Rightarrow> store \<Rightarrow> pyval \<Rightarrow> error + ArrayDB \<times> store" where
  "ArrayDB_put a st v =
     (let sz = arr_size a in
      bind_err (ArrayDB__put a st sz v) (\<lambda>st1. ArrayDB__set_size a st1 (sz + 1)))"

text \<open>\<^verbatim>\<open>pop\<close> returns \<^verbatim>\<open>None\<close>, here \<open>PNone\<close>, on an empty array.\<close>

definition ArrayDB_pop :: "ArrayDB \<Rightarrow> store \<Rightarrow> error + pyval \<times> ArrayDB \<times> store" where
  "ArrayDB_pop a st =
     (let sz = arr_size a in
      if sz = 0 then Inr (PNone, a, st)
      else
        let index = sz - 1 in
        bind_err (ArrayDB_getitem a st (PInt index)) (\<lambda>last_val.
        bind_err (encoded_key (PInt index)) (\<lambda>key.
        bind_err (ArrayDB__set_size a (db_delete st (arr_db a) key) index) (\<lambda>(a', st').
        Inr (last_val, a', st')))))"

definition ArrayDB_setitem :: "ArrayDB \<Rightarrow> store \<Rightarrow> pyval \<Rightarrow> pyval \<Rightarrow> error + store" where
  "ArrayDB_setitem a st index v =
     (case index_int index of
        None \<Rightarrow> Inl (InvalidParamsException ''Invalid index type: not an integer'')
      | Some i \<Rightarrow>
          let sz = arr_size a;
              i = (if i < 0 then i + sz else i) in
          if 0 \<le> i \<and> i < sz then ArrayDB__put a st i v
          else Inl (InvalidParamsException ''ArrayDB out of index''))"

definition ArrayDB_len :: "ArrayDB \<Rightarrow> int" where
  "ArrayDB_len a = arr_size a"

text \<open>
  \<^verbatim>\<open>__iter__\<close>: the generator yields \<^verbatim>\<open>_get\<close> for each index of \<^verbatim>\<open>range(size)\<close> and
  ends at the first element that raises. Its run is the list of values it yields and
  the exception it ends with, if any.
\<close>

fun generator_run :: "(error + 'a) list \<Rightarrow> 'a list \<times> error option" where
  "generator_run [] = ([], None)"
| "generator_run (Inl e # rs) = ([], Some e)"
| "generator_run (Inr x # rs) = (case generator_run rs of (ys, e) \<Rightarrow> (x # ys, e))"

definition ArrayDB_iter :: "ArrayDB \<Rightarrow> store \<Rightarrow> pyval list \<times> error option" where
  "ArrayDB_iter a st =
     generator_run
       (map (\<lambda>i. ArrayDB__get st (arr_db a) (arr_size a) (PInt (int i)) (arr_value_type a))
          [0 ..< nat (arr_size a)])"

subsection \<open>DictDB\<close>

record DictDB =
  dict_db :: db_handle
  dict_value_type :: pytype
  dict_depth :: int

text \<open>\<^verbatim>\<open>__getitem__\<close> returns a stored value or a nested \<^verbatim>\<open>DictDB\<close>.\<close>

datatype dict_item = Item_value pyval | Item_dict DictDB

definition DictDB_init :: "pyval \<Rightarrow> db_handle \<Rightarrow> pytype \<Rightarrow> int \<Rightarrow> error + DictDB" where
  "DictDB_init var_key db value_type depth =
     bind_err
       (if db_is_root db then create_db_prefix DictDB_cls var_key else encoded_key var_key)
       (\<lambda>prefix.
          Inr \<lparr>dict_db = get_sub_db db prefix, dict_value_type = value_type,
               dict_depth = depth\<rparr>)"

definition DictDB_setitem :: "DictDB \<Rightarrow> store \<Rightarrow> pyval \<Rightarrow> pyval \<Rightarrow> error + store" where
  "DictDB_setitem d st key v =
     (if dict_depth d \<noteq> 1 then Inl (InvalidContainerAccessException ''DictDB depth mismatch'')
      else
        bind_err (encoded_key key) (\<lambda>k.
        bind_err (encode_value v) (\<lambda>bv. Inr (db_put st (dict_db d) k bv))))"

definition DictDB_getitem :: "DictDB \<Rightarrow> store \<Rightarrow> pyval \<Rightarrow> error + dict_item" where
  "DictDB_getitem d st key =
     (if dict_depth d = 1 then
        bind_err (encoded_key key) (\<lambda>k.
        bind_err (decode_object (db_get st (dict_db d) k) (dict_value_type d)) (\<lambda>v.
        Inr (Item_value v)))
      else
        bind_err (DictDB_init key (dict_db d) (dict_value_type d) (dict_depth d - 1)) (\<lambda>d'.
        Inr (Item_dict d')))"

text \<open>\<^verbatim>\<open>__remove\<close>, which \<^verbatim>\<open>remove\<close> and \<^verbatim>\<open>__delitem__\<close> both call.\<close>

definition DictDB__remove :: "DictDB \<Rightarrow> store \<Rightarrow> pyval \<Rightarrow> error + store" where
  "DictDB__remove d st key =
     (if dict_depth d \<noteq> 1 then Inl (InvalidContainerAccessException ''DictDB depth mismatch'')
      else bind_err (encoded_key key) (\<lambda>k. Inr (db_delete st (dict_db d) k)))"

definition DictDB_remove :: "DictDB \<Rightarrow> store \<Rightarrow> pyval \<Rightarrow> error + store" where
  "DictDB_remove d st key = DictDB__remove d st key"

definition DictDB_delitem :: "DictDB \<Rightarrow> store \<Rightarrow> pyval \<Rightarrow> error + store" where
  "DictDB_delitem d st key = DictDB__remove d st key"

definition DictDB_contains :: "DictDB \<Rightarrow> store \<Rightarrow> pyval \<Rightarrow> error + bool" where
  "DictDB_contains d st key =
     bind_err (encoded_key key) (\<lambda>k. Inr (db_get st (dict_db d) k \<noteq> None))"

definition DictDB_iter :: "DictDB \<Rightarrow> error + unit" where
  "DictDB_iter d = Inl (InvalidContainerAccessException ''Iteration not supported in DictDB'')"

subsection \<open>VarDB\<close>

record VarDB =
  var_db :: db_handle
  var_byte_key :: key_candidates
  var_value_type :: pytype

definition VarDB_init :: "pyval \<Rightarrow> db_handle \<Rightarrow> pytype \<Rightarrow> error + VarDB" where
  "VarDB_init var_key db value_type =
     (let sub = get_sub_db db ([VAR_DB_ID], [VAR_DB_ID]) in
      bind_err (encoded_key var_key) (\<lambda>k.
        Inr \<lparr>var_db = sub, var_byte_key = k, var_value_type = value_type\<rparr>))"

definition VarDB_set :: "VarDB \<Rightarrow> store \<Rightarrow> pyval \<Rightarrow> error + store" where
  "VarDB_set x st v =
     bind_err (encode_value v) (\<lambda>bv. Inr (db_put st (var_db x) (var_byte_key x) bv))"

definition VarDB_get :: "VarDB \<Rightarrow> store \<Rightarrow> error + pyval" where
  "VarDB_get x st = decode_object (db_get st (var_db x) (var_byte_key x)) (var_value_type x)"

definition VarDB_remove :: "VarDB \<Rightarrow> store \<Rightarrow> store" where
  "VarDB_remove x st = db_delete st (var_db x) (var_byte_key x)"

subsection \<open>Notions used to state the properties\<close>

text \<open>The value of a byte string read as an unsigned big-endian number.\<close>

definition be_nat :: "bytes \<Rightarrow> nat" where
  "be_nat bs = foldl (\<lambda>acc x. acc * 256 + unat x) 0 bs"

text \<open>
  A string of the logical type: every code point is a Unicode scalar value, that is,
  below \<open>0x110000\<close> and not a surrogate. These are the strings that have a UTF-8 form.
\<close>

definition wf_str :: "nat list \<Rightarrow> bool" where
  "wf_str s \<longleftrightarrow> list_all (\<lambda>c. c < 0xD800 \<or> (0xE000 \<le> c \<and> c < 0x110000)) s"

text \<open>\<open>logical_value v T\<close>: \<open>v\<close> is a value of the supported logical type \<open>T\<close>.\<close>

fun logical_value :: "pyval \<Rightarrow> pytype \<Rightarrow> bool" where
  "logical_value (PInt n) TInt = True"
| "logical_value (PStr s) TStr = wf_str s"
| "logical_value (PAddress a) TAddress = True"
| "logical_value (PBytes b) TBytes = True"
| "logical_value (PBool b) TBool = True"
| "logical_value _ _ = False"

text \<open>
  The index an operation resolves to: a negative index counts from the end.
\<close>

definition resolved_index :: "int \<Rightarrow> int \<Rightarrow> int" where
  "resolved_index i sz = (if i < 0 then i + sz else i)"

text \<open>
  Integers from \<open>- (2 ^ 439)\<close> up to \<open>2 ^ 439 - 1\<close> have at most 55 bytes, so that
  their V2 key is of the short form and \<^verbatim>\<open>bytes([n])\<close> cannot raise.
\<close>

definition SHORT_KEY_BOUND :: int where
  "SHORT_KEY_BOUND = 2 ^ 439"

text \<open>A store without entries, and a root handle, for the examples.\<close>

definition empty_store :: "scheme \<Rightarrow> store" where
  "empty_store sch = \<lparr>scheme = sch, entries = Map.empty\<rparr>"

definition root_db :: db_handle where
  "root_db = \<lparr>db_is_root = True, db_prefix = ([], [])\<rparr>"

text \<open>The array that \<open>ArrayDB_init (PInt 1) root_db vt\<close> builds over an empty store.\<close>

definition example_array :: "pytype \<Rightarrow> ArrayDB" where
  "example_array vt =
     \<lparr>arr_db = \<lparr>db_is_root = False, db_prefix = ([[0x00], [0x01]], [[0x00], [0x01]])\<rparr>,
      arr_value_type = vt, arr_size = 0\<rparr>"

subsection \<open>Runs of an ArrayDB\<close>

text \<open>
  A sequence of \<open>put\<close> and \<open>pop\<close> calls on one array. The run stops at the first
  exception; it returns the array, the store, and for each \<open>pop\<close> the cached length
  it found together with the value it returned.
\<close>

datatype array_op = Append pyval | Pop

fun run_ops :: "array_op list \<Rightarrow> ArrayDB \<times> store \<Rightarrow> error + ArrayDB \<times> store \<times> (int \<times> pyval) list" where
  "run_ops [] (a, st) = Inr (a, st, [])"
| "run_ops (Append v # ops) (a, st) =
     bind_err (ArrayDB_put a st v) (\<lambda>s. run_ops ops s)"
| "run_ops (Pop # ops) (a, st) =
     bind_err (ArrayDB_pop a st) (\<lambda>(r, s).
     bind_err (run_ops ops s) (\<lambda>(a', st', log). Inr (a', st', (arr_size a, r) # log)))"

text \<open>The values appended by a sequence, in order.\<close>

fun appended :: "array_op list \<Rightarrow> pyval list" where
  "appended [] = []"
| "appended (Append v # ops) = v # appended ops"
| "appended (Pop # ops) = appended ops"

text \<open>
  The list an array is meant to hold after a sequence, starting from the list \<open>xs\<close>:
  an append adds at the end, a pop removes the last element if there is one.
\<close>

fun model_ops :: "array_op list \<Rightarrow> pyval list \<Rightarrow> pyval list" where
  "model_ops [] xs = xs"
| "model_ops (Append v # ops) xs = model_ops ops (xs @ [v])"
| "model_ops (Pop # ops) xs = model_ops ops (butlast xs)"

text \<open>The greatest length the list reaches during a sequence, starting from length \<open>n\<close>.\<close>

fun peak_len :: "array_op list \<Rightarrow> nat \<Rightarrow> nat" where
  "peak_len [] n = n"
| "peak_len (Append v # ops) n = max n (peak_len ops (Suc n))"
| "peak_len (Pop # ops) n = max n (peak_len ops (n - 1))"

text \<open>
  The length up to which an array keeps its elements apart from its size entry: under
  V1 the element of index \<open>1936292453\<close> would share the key of the size entry; under V2
  the bound is the one that keeps index keys in the short form.
\<close>

fun index_limit :: "scheme \<Rightarrow> int" where
  "index_limit V1 = 1936292453"
| "index_limit V2 = SHORT_KEY_BOUND"

text \<open>Run a sequence, then read one index; run a sequence, then overwrite one index and
  report the cached length next to the length decoded from the size entry.\<close>

definition get_after :: "array_op list \<Rightarrow> ArrayDB \<times> store \<Rightarrow> pyval \<Rightarrow> error + pyval" where
  "get_after ops s index =
     bind_err (run_ops ops s) (\<lambda>(a, st, log). ArrayDB_get a st index)"

definition sizes_after_set ::
  "array_op list \<Rightarrow> ArrayDB \<times> store \<Rightarrow> pyval \<Rightarrow> pyval \<Rightarrow> error + int \<times> (error + pyval)" where
  "sizes_after_set ops s index v =
     bind_err (run_ops ops s) (\<lambda>(a, st, log).
     bind_err (ArrayDB_setitem a st index v) (\<lambda>st'.
       Inr (ArrayDB_len a, decode_object (db_get st' (arr_db a) SIZE_BYTE_KEY) TInt)))"

text \<open>The V2 store after \<open>put(5)\<close> on \<open>example_array TInt\<close> over the empty store.\<close>

definition store_with_five :: store where
  "store_with_five =
     db_put
       (db_put (empty_store V2) (arr_db (example_array TInt)) ([[0x00]], [[0x00]]) [0x05])
       (arr_db (example_array TInt)) SIZE_BYTE_KEY [0x01]"

text \<open>What \<open>get(index)\<close> on the array \<open>a\<close> returns after \<open>put(v)\<close> on the array \<open>b\<close>.\<close>

definition put_then_get :: "ArrayDB \<Rightarrow> store \<Rightarrow> pyval \<Rightarrow> ArrayDB \<Rightarrow> pyval \<Rightarrow> error + pyval" where
  "put_then_get b st v a index =
     bind_err (ArrayDB_put b st v) (\<lambda>(b', st'). ArrayDB_get a st' index)"

text \<open>
  The arrays that \<open>ArrayDB_init\<close> builds over an empty store from the var_keys
  \<^verbatim>\<open>b'a'\<close> and \<^verbatim>\<open>b'a\x01'\<close>, with integer elements.
\<close>

definition array_a :: ArrayDB where
  "array_a =
     \<lparr>arr_db = \<lparr>db_is_root = False, db_prefix = ([[0x00], [0x61]], [[0x00], [0x61]])\<rparr>,
      arr_value_type = TInt, arr_size = 0\<rparr>"

definition array_a1 :: ArrayDB where
  "array_a1 =
     \<lparr>arr_db = \<lparr>db_is_root = False,
               db_prefix = ([[0x00], [0x61, 0x01]], [[0x00], [0x82, 0x61, 0x01]])\<rparr>,
      arr_value_type = TInt, arr_size = 0\<rparr>"

text \<open>
  Run a sequence on one array, read \<open>get(index)\<close> on it, call \<open>put(v)\<close> on the array
  \<open>b\<close>, and read \<open>get(index)\<close> on the first array again: the two values read.
\<close>

definition get_around_put ::
  "array_op list \<Rightarrow> ArrayDB \<times> store \<Rightarrow> ArrayDB \<Rightarrow> pyval \<Rightarrow> pyval \<Rightarrow> error + pyval \<times> pyval" where
  "get_around_put ops s b v index =
     bind_err (run_ops ops s) (\<lambda>(a, st, log).
     bind_err (ArrayDB_get a st index) (\<lambda>r1.
     bind_err (ArrayDB_put b st v) (\<lambda>(b', st').
     bind_err (ArrayDB_get a st' index) (\<lambda>r2. Inr (r1, r2)))))"

text \<open>The cached size agrees with the size entry of the store.\<close>

definition size_consistent :: "ArrayDB \<Rightarrow> store \<Rightarrow> bool" where
  "size_consistent a st \<longleftrightarrow>
     decode_object (db_get st (arr_db a) SIZE_BYTE_KEY) TInt = Inr (PInt (arr_size a))"

text \<open>
  The states an array and the store can reach from a given state by successful \<open>put\<close>,
  \<open>pop\<close> and \<open>set\<close> calls on that array (a call that raises changes nothing).
\<close>

inductive array_steps :: "ArrayDB \<times> store \<Rightarrow> ArrayDB \<times> store \<Rightarrow> bool" where
  steps_refl: "array_steps s s"
| steps_put: "array_steps s (b, st) \<Longrightarrow> ArrayDB_put b st v = Inr (b', st') \<Longrightarrow>
     array_steps s (b', st')"
| steps_pop: "array_steps s (b, st) \<Longrightarrow> ArrayDB_pop b st = Inr (r, b', st') \<Longrightarrow>
     array_steps s (b', st')"
| steps_set: "array_steps s (b, st) \<Longrightarrow> ArrayDB_setitem b st index v = Inr st' \<Longrightarrow>
     array_steps s (b, st')"

text \<open>The entry of an index, and what a proof keeps track of along a run: the cached
  size is the length of the list, and each element's entry holds its encoding.\<close>

definition elem_at :: "store \<Rightarrow> db_handle \<Rightarrow> int \<Rightarrow> bytes option" where
  "elem_at st db i = (case encoded_key (PInt i) of Inl e \<Rightarrow> None | Inr k \<Rightarrow> db_get st db k)"

definition arr_inv :: "ArrayDB \<Rightarrow> store \<Rightarrow> pyval list \<Rightarrow> bool" where
  "arr_inv a st xs \<longleftrightarrow>
     arr_size a = int (length xs)
     \<and> (\<forall>i < length xs. logical_value (xs ! i) (arr_value_type a)
           \<and> (\<exists>bv. elem_at st (arr_db a) (int i) = Some bv \<and> encode_value (xs ! i) = Inr bv))"


section \<open>Properties of the codec\<close>

subsection \<open>Integers\<close>

lemma bytes_to_int_snoc:
  "bs \<noteq> [] \<Longrightarrow> bytes_to_int (bs @ [x]) = bytes_to_int bs * 256 + uint x"
  by (cases bs) simp_all

lemma int_to_bytes_ne: "int_to_bytes n \<noteq> []"
  by (subst int_to_bytes.simps) simp

lemma sint_byte: "- 128 \<le> n \<Longrightarrow> n < 128 \<Longrightarrow> sint (of_int n :: byte) = n"
  by (simp add: sint_sbintrunc' signed_take_bit_int_eq_self)

lemma uint_byte: "uint (of_int n :: byte) = n mod 256"
  by (simp add: uint_word_of_int)

lemma unat_of_nat_byte: "n < 256 \<Longrightarrow> unat (of_nat n :: byte) = n"
  by (simp add: unat_of_nat)

lemma of_nat_byte_nonzero: "0 < n \<Longrightarrow> n < 256 \<Longrightarrow> (of_nat n :: byte) \<noteq> 0"
  using unat_of_nat_byte [of n] by auto

text \<open>Reading back what \<open>int_to_bytes\<close> wrote gives the integer.\<close>

lemma bytes_to_int_int_to_bytes: "bytes_to_int (int_to_bytes n) = n"
proof (induction n rule: int_to_bytes.induct)
  case (1 n)
  show ?case
  proof (cases "- 128 \<le> n \<and> n < 128")
    case True
    then show ?thesis
      by (subst int_to_bytes.simps) (simp add: sint_byte)
  next
    case False
    then have "bytes_to_int (int_to_bytes (n div 256)) = n div 256"
      using 1 by simp
    with False show ?thesis
      by (subst int_to_bytes.simps) (auto simp add: bytes_to_int_snoc int_to_bytes_ne uint_byte)
  qed
qed

lemma int_to_bytes_inj: "int_to_bytes a = int_to_bytes b \<Longrightarrow> a = b"
  by (metis bytes_to_int_int_to_bytes)

text \<open>The examples of \<^verbatim>\<open>test_int_to_bytes\<close>, and the integer that spells \<^verbatim>\<open>size\<close>.\<close>

lemma int_to_bytes_examples:
  "int_to_bytes 0x80 = [0x00, 0x80]"
  "int_to_bytes (- 0x80) = [0x80]"
  "int_to_bytes 0 = [0x00]"
  "int_to_bytes 1 = [0x01]"
  by (simp_all add: int_to_bytes.simps)

lemma int_to_bytes_size: "int_to_bytes 1936292453 = [0x73, 0x69, 0x7A, 0x65]"
  by (simp add: int_to_bytes.simps)

subsection \<open>UTF-8\<close>

lemma utf8_encode_cp_bound: "utf8_encode_cp c = Inr bs \<Longrightarrow> \<forall>b\<in>set bs. b < 256"
  by (auto simp: utf8_encode_cp_def split: if_splits)

lemma recompose2: "(c::nat) div 64 * 64 + c mod 64 = c"
  by simp

lemma recompose_step: "(c::nat) div (64 * k) * 64 + c div k mod 64 = c div k"
proof -
  have "c div (64 * k) = c div k div 64"
    by (simp add: div_mult2_eq mult.commute)
  then show ?thesis
    by simp
qed

lemma recompose3: "(c::nat) div 4096 * 4096 + c div 64 mod 64 * 64 + c mod 64 = c"
proof -
  have a: "c div 4096 * 64 + c div 64 mod 64 = c div 64"
    using recompose_step [of c 64] by simp
  have b: "c div 64 * 64 + c mod 64 = c"
    by simp
  have "x * 64 + y = z \<Longrightarrow> z * 64 + m = c \<Longrightarrow> x * 4096 + y * 64 + m = c" for x y z m :: nat
    by auto
  from this [OF a b] show ?thesis .
qed

lemma recompose4:
  "(c::nat) div 262144 * 262144 + c div 4096 mod 64 * 4096 + c div 64 mod 64 * 64 + c mod 64 = c"
proof -
  have a: "c div 262144 * 64 + c div 4096 mod 64 = c div 4096"
    using recompose_step [of c 4096] by simp
  have "x * 64 + y = z \<Longrightarrow> z * 4096 + r = c \<Longrightarrow> x * 262144 + y * 4096 + r = c" for x y z r :: nat
    by auto
  from this [OF a, of "c div 64 mod 64 * 64 + c mod 64"] recompose3 [of c] show ?thesis
    by (simp add: add.assoc)
qed

lemma utf8_cp_roundtrip:
  "utf8_encode_cp c = Inr bs \<Longrightarrow>
   utf8_decode_nat (bs @ rest) = cons_ok c (utf8_decode_nat rest)"
  by (auto simp: utf8_encode_cp_def is_cont_def Let_def recompose2 recompose3 recompose4
      split: if_splits)

lemma utf8_encode_nat_Cons:
  assumes "utf8_encode_nat (c # cs) = Inr bs"
  obtains b1 b2 where "utf8_encode_cp c = Inr b1" "utf8_encode_nat cs = Inr b2" "bs = b1 @ b2"
  using assms by (auto simp: bind_err_def split: sum.splits)

lemma utf8_nat_roundtrip: "utf8_encode_nat s = Inr bs \<Longrightarrow> utf8_decode_nat bs = Inr s"
proof (induction s arbitrary: bs)
  case Nil
  then show ?case by simp
next
  case (Cons c cs)
  from Cons.prems obtain b1 b2 where
    b1: "utf8_encode_cp c = Inr b1" and b2: "utf8_encode_nat cs = Inr b2" and bs: "bs = b1 @ b2"
    by (rule utf8_encode_nat_Cons)
  from Cons.IH [OF b2] utf8_cp_roundtrip [OF b1, of b2] bs show ?case
    by (simp add: cons_ok_def)
qed

lemma utf8_encode_nat_bound: "utf8_encode_nat s = Inr bs \<Longrightarrow> \<forall>b\<in>set bs. b < 256"
proof (induction s arbitrary: bs)
  case Nil
  then show ?case by simp
next
  case (Cons c cs)
  from Cons.prems obtain b1 b2 where
    b1: "utf8_encode_cp c = Inr b1" and b2: "utf8_encode_nat cs = Inr b2" and bs: "bs = b1 @ b2"
    by (rule utf8_encode_nat_Cons)
  from Cons.IH [OF b2] utf8_encode_cp_bound [OF b1] bs show ?case
    by auto
qed

lemma map_unat_of_nat: "\<forall>b\<in>set ns. b < 256 \<Longrightarrow> map unat (map of_nat ns :: bytes) = ns"
  by (induction ns) (simp_all add: unat_of_nat_byte)

lemma utf8_roundtrip:
  assumes "utf8_encode s = Inr bs"
  shows "utf8_decode bs = Inr s"
proof -
  from assms obtain ns where ns: "utf8_encode_nat s = Inr ns" and bs: "bs = map of_nat ns"
    by (auto simp: utf8_encode_def bind_err_def split: sum.splits)
  have "map unat bs = ns"
    unfolding bs using utf8_encode_nat_bound [OF ns] by (rule map_unat_of_nat)
  then show ?thesis
    by (simp add: utf8_decode_def utf8_nat_roundtrip [OF ns])
qed

lemma utf8_encode_nat_total: "wf_str s \<Longrightarrow> \<exists>bs. utf8_encode_nat s = Inr bs"
  by (induction s) (auto simp: wf_str_def utf8_encode_cp_def bind_err_def)

lemma utf8_encode_total: "wf_str s \<Longrightarrow> \<exists>bs. utf8_encode s = Inr bs"
  using utf8_encode_nat_total [of s] by (auto simp: utf8_encode_def bind_err_def)

lemma utf8_encode_size: "utf8_encode [0x73, 0x69, 0x7A, 0x65] = Inr [0x73, 0x69, 0x7A, 0x65]"
  by (simp add: utf8_encode_def utf8_encode_cp_def bind_err_def)

subsection \<open>The V2 frame\<close>

lemma sdiv_nonneg: "0 \<le> x \<Longrightarrow> x sdiv 256 = x div 256" for x :: int
  by (cases "x = 0") (simp_all add: signed_divide_int_def sgn_if)

lemma rlp_get_bytes_nat:
  "rlp_get_bytes (int n) =
     (if n = 0 then [] else rlp_get_bytes (int (n div 256)) @ [of_nat (n mod 256)])"
proof -
  have "word_of_int (int n mod 256) = (word_of_nat (n mod 256) :: byte)"
    by (metis of_int_of_nat_eq zmod_int of_nat_numeral)
  then show ?thesis
    by (subst rlp_get_bytes.simps) (simp add: sdiv_nonneg zdiv_int)
qed

lemma be_nat_snoc: "be_nat (bs @ [x]) = be_nat bs * 256 + unat x"
  by (simp add: be_nat_def)

lemma be_nat_rlp_get_bytes: "be_nat (rlp_get_bytes (int n)) = n"
proof (induction n rule: less_induct)
  case (less n)
  show ?case
  proof (cases "n = 0")
    case True
    then show ?thesis by (subst rlp_get_bytes_nat) (simp add: be_nat_def)
  next
    case False
    then have "be_nat (rlp_get_bytes (int (n div 256))) = n div 256"
      using less by simp
    with False show ?thesis
      by (subst rlp_get_bytes_nat) (simp add: be_nat_snoc unat_of_nat_byte)
  qed
qed

lemma rlp_get_bytes_length: "n < 256 ^ k \<Longrightarrow> length (rlp_get_bytes (int n)) \<le> k"
proof (induction k arbitrary: n)
  case 0
  then show ?case by (subst rlp_get_bytes_nat) simp
next
  case (Suc k)
  show ?case
  proof (cases "n = 0")
    case True
    then show ?thesis by (subst rlp_get_bytes_nat) simp
  next
    case False
    from Suc.prems have "n div 256 < 256 ^ k"
      by (simp add: less_mult_imp_div_less mult.commute)
    from Suc.IH [OF this] False show ?thesis
      by (subst rlp_get_bytes_nat) simp
  qed
qed

lemma rlp_get_bytes_hd:
  "0 < n \<Longrightarrow> rlp_get_bytes (int n) \<noteq> [] \<and> hd (rlp_get_bytes (int n)) \<noteq> 0"
proof (induction n rule: less_induct)
  case (less n)
  have step: "rlp_get_bytes (int n) = rlp_get_bytes (int (n div 256)) @ [of_nat (n mod 256)]"
    using less.prems by (subst rlp_get_bytes_nat) simp
  show ?case
  proof (cases "n div 256 = 0")
    case True
    with less.prems have "n < 256" "n mod 256 = n" by auto
    moreover have "rlp_get_bytes (int 0) = []" by (subst rlp_get_bytes_nat) simp
    ultimately show ?thesis
      using less.prems by (simp add: step True of_nat_byte_nonzero)
  next
    case False
    then have "rlp_get_bytes (int (n div 256)) \<noteq> [] \<and> hd (rlp_get_bytes (int (n div 256))) \<noteq> 0"
      using less by simp
    then show ?thesis
      by (simp add: step)
  qed
qed

lemma rlp_encode_bytes_single:
  "length b = 1 \<Longrightarrow> hd b < 0x80 \<Longrightarrow> rlp_encode_bytes b = Inr b"
  by (simp add: rlp_encode_bytes_def)

lemma rlp_encode_bytes_short:
  "\<not> (length b = 1 \<and> hd b < 0x80) \<Longrightarrow> length b \<le> 55 \<Longrightarrow>
   rlp_encode_bytes b = Inr (of_nat (0x80 + length b) # b)"
  by (auto simp: rlp_encode_bytes_def py_bytes1_def bind_err_def Let_def)

lemma rlp_encode_bytes_long:
  "55 < length b \<Longrightarrow> length (rlp_get_bytes (int (length b))) < 73 \<Longrightarrow>
   rlp_encode_bytes b =
     Inr (of_nat (0x80 + 55 + length (rlp_get_bytes (int (length b))))
          # rlp_get_bytes (int (length b)) @ b)"
  by (auto simp: rlp_encode_bytes_def py_bytes1_def bind_err_def Let_def)

text \<open>
  C2. For a byte string \<open>b\<close> (of a length below \<open>2 ^ 53\<close>, where the float division of
  \<^verbatim>\<open>rlp_get_bytes\<close> is exact) \<open>rlp_encode_bytes\<close> returns \<open>b\<close> itself when \<open>b\<close> is one
  byte below \<open>0x80\<close>; the byte \<open>0x80 + length b\<close> followed by \<open>b\<close> when \<open>b\<close> has at most 55
  bytes; and otherwise the byte \<open>0x80 + 55 + L\<close>, then the \<open>L\<close> bytes of the length of
  \<open>b\<close> written big-endian without a leading zero, then \<open>b\<close>. The output is strictly
  longer than the input except in the first case, where it is the input.
\<close>

theorem rlp_encode_bytes_forms:
  assumes "length b < 2 ^ 53"
  shows "(length b = 1 \<and> hd b < 0x80 \<longrightarrow> rlp_encode_bytes b = Inr b)
    \<and> (\<not> (length b = 1 \<and> hd b < 0x80) \<and> length b \<le> 55 \<longrightarrow>
         (\<exists>p. rlp_encode_bytes b = Inr (p # b) \<and> unat p = 0x80 + length b))
    \<and> (55 < length b \<longrightarrow>
         (\<exists>p lb. rlp_encode_bytes b = Inr (p # lb @ b) \<and> unat p = 0x80 + 55 + length lb
            \<and> be_nat lb = length b \<and> lb \<noteq> [] \<and> hd lb \<noteq> 0))
    \<and> (\<exists>out. rlp_encode_bytes b = Inr out
          \<and> (if length b = 1 \<and> hd b < 0x80 then out = b else length b < length out))"
proof -
  let ?lb = "rlp_get_bytes (int (length b))"
  have "length b < (256::nat) ^ 7"
    using assms by simp
  then have len: "length ?lb \<le> 7"
    by (rule rlp_get_bytes_length)
  have long: "rlp_encode_bytes b = Inr (of_nat (0x80 + 55 + length ?lb) # ?lb @ b)"
    if "55 < length b"
    using that len by (intro rlp_encode_bytes_long) simp_all
  have p: "unat (of_nat (0x80 + 55 + length ?lb) :: byte) = 0x80 + 55 + length ?lb"
    using len by (intro unat_of_nat_byte) simp
  have q: "unat (of_nat (0x80 + length b) :: byte) = 0x80 + length b" if "length b \<le> 55"
    using that by (intro unat_of_nat_byte) simp
  show ?thesis
  proof (intro conjI impI)
    assume "length b = 1 \<and> hd b < 0x80"
    then show "rlp_encode_bytes b = Inr b"
      by (simp add: rlp_encode_bytes_single)
  next
    assume "\<not> (length b = 1 \<and> hd b < 0x80) \<and> length b \<le> 55"
    then show "\<exists>p. rlp_encode_bytes b = Inr (p # b) \<and> unat p = 0x80 + length b"
      using q by (simp add: rlp_encode_bytes_short)
  next
    assume l: "55 < length b"
    then have "?lb \<noteq> [] \<and> hd ?lb \<noteq> 0"
      by (intro rlp_get_bytes_hd) auto
    with long [OF l] p show "\<exists>p lb. rlp_encode_bytes b = Inr (p # lb @ b)
        \<and> unat p = 0x80 + 55 + length lb \<and> be_nat lb = length b \<and> lb \<noteq> [] \<and> hd lb \<noteq> 0"
      using be_nat_rlp_get_bytes [of "length b"] by blast
  next
    show "\<exists>out. rlp_encode_bytes b = Inr out
          \<and> (if length b = 1 \<and> hd b < 0x80 then out = b else length b < length out)"
    proof (cases "length b = 1 \<and> hd b < 0x80")
      case True
      then show ?thesis by (simp add: rlp_encode_bytes_single)
    next
      case False
      then show ?thesis
        using long by (cases "length b \<le> 55") (simp_all add: rlp_encode_bytes_short)
    qed
  qed
qed

theorem rlp_encode_bytes_forms_witness:
  "length (replicate 56 (1::byte)) < 2 ^ 53 \<and> 55 < length (replicate 56 (1::byte))
   \<and> (\<exists>p lb. rlp_encode_bytes (replicate 56 1) = Inr (p # lb @ replicate 56 1)
          \<and> unat p = 0x80 + 55 + length lb \<and> be_nat lb = 56 \<and> lb \<noteq> [] \<and> hd lb \<noteq> 0)"
  using rlp_encode_bytes_forms [of "replicate 56 (1::byte)"] by simp

subsection \<open>Values\<close>

lemma from_bytes_to_bytes: "from_bytes (to_bytes a) = a"
  by (cases a) (simp add: from_bytes_def)

lemma encode_value_decode_object:
  assumes "logical_value v T"
  shows "\<exists>bs. encode_value v = Inr bs \<and> decode_object (Some bs) T = Inr v"
proof (cases v)
  case (PInt n)
  with assms have "T = TInt" by (cases T) simp_all
  with PInt show ?thesis
    by (simp add: decode_object_def bind_err_def bytes_to_int_int_to_bytes)
next
  case (PBool b)
  with assms have "T = TBool" by (cases T) simp_all
  with PBool show ?thesis
    by (simp add: decode_object_def bind_err_def bytes_to_int_int_to_bytes)
next
  case (PStr s)
  with assms have T: "T = TStr" and "wf_str s" by (cases T; simp)+
  then obtain bs where bs: "utf8_encode s = Inr bs"
    using utf8_encode_total by blast
  from utf8_roundtrip [OF bs] bs T PStr show ?thesis
    by (simp add: decode_object_def bind_err_def)
next
  case (PAddress a)
  with assms have "T = TAddress" by (cases T) simp_all
  with PAddress show ?thesis
    by (simp add: decode_object_def bind_err_def from_bytes_to_bytes)
next
  case (PBytes b)
  with assms have "T = TBytes" by (cases T) simp_all
  with PBytes show ?thesis
    by (simp add: decode_object_def bind_err_def)
next
  case PNone
  with assms show ?thesis by simp
next
  case POther
  with assms show ?thesis by simp
qed

text \<open>
  C3. For each of the five supported types \<open>T\<close> and each value \<open>v\<close> of that type,
  \<open>encode_value\<close> succeeds on \<open>v\<close> and \<open>decode_object\<close> at type \<open>T\<close> gives \<open>v\<close> back.
  (A string of the logical type is a UTF-8 string: a list of Unicode scalar values.)
\<close>

theorem decode_encode_value:
  "logical_value v T \<Longrightarrow> \<exists>bs. encode_value v = Inr bs \<and> decode_object (Some bs) T = Inr v"
  by (rule encode_value_decode_object)

theorem decode_encode_value_witness:
  "logical_value (PStr [0x73, 0x20AC, 0x10348]) TStr
   \<and> (\<exists>bs. encode_value (PStr [0x73, 0x20AC, 0x10348]) = Inr bs
          \<and> decode_object (Some bs) TStr = Inr (PStr [0x73, 0x20AC, 0x10348]))"
  using decode_encode_value [of "PStr [0x73, 0x20AC, 0x10348]" TStr] by (simp add: wf_str_def)

text \<open>
  C10. For a requested type outside the five supported ones \<open>decode_object\<close> returns
  \<^verbatim>\<open>None\<close>, whether the byte string is present or absent, and raises nothing.
\<close>

theorem decode_object_unsupported_type:
  "value_type \<notin> {TInt, TStr, TAddress, TBytes, TBool} \<Longrightarrow>
   decode_object value value_type = Inr PNone"
  by (cases value_type; cases "value") (simp_all add: decode_object_def bind_err_def)

theorem decode_object_unsupported_type_witness:
  "TOther \<notin> {TInt, TStr, TAddress, TBytes, TBool}
   \<and> decode_object (Some [0xFF, 0xFE]) TOther = Inr PNone
   \<and> decode_object None TOther = Inr PNone"
  using decode_object_unsupported_type [of TOther "Some [0xFF, 0xFE]"]
    decode_object_unsupported_type [of TOther None]
  by simp

section \<open>Properties of keys\<close>

lemma div256_upper: "n < 256 * M \<Longrightarrow> n div 256 < M" for n M :: int
  by (simp add: div_less_iff_less_mult mult.commute)

lemma div256_lower: "- (256 * M) \<le> n \<Longrightarrow> - M \<le> n div 256" for n M :: int
proof -
  assume "- (256 * M) \<le> n"
  then have "(- (256 * M)) div 256 \<le> n div 256"
    by (intro zdiv_mono1) simp_all
  then show ?thesis
    by simp
qed

lemma int_to_bytes_length:
  "- (2 ^ (8 * k + 7)) \<le> n \<Longrightarrow> n < 2 ^ (8 * k + 7) \<Longrightarrow> length (int_to_bytes n) \<le> k + 1"
proof (induction k arbitrary: n)
  case 0
  then show ?case by (subst int_to_bytes.simps) simp
next
  case (Suc k)
  show ?case
  proof (cases "- 128 \<le> n \<and> n < 128")
    case True
    then show ?thesis by (subst int_to_bytes.simps) simp
  next
    case False
    have p: "(2::int) ^ (8 * Suc k + 7) = 256 * 2 ^ (8 * k + 7)"
      by (simp add: power_add)
    from Suc.prems have "- (2 ^ (8 * k + 7)) \<le> n div 256" "n div 256 < 2 ^ (8 * k + 7)"
      unfolding p by (auto intro: div256_upper div256_lower)
    from Suc.IH [OF this] False show ?thesis
      by (subst int_to_bytes.simps) simp
  qed
qed

lemma SHORT_KEY_BOUND_pos: "0 < SHORT_KEY_BOUND"
  by (simp add: SHORT_KEY_BOUND_def)

lemma rlp_encode_bytes_le55:
  "length b \<le> 55 \<Longrightarrow>
   rlp_encode_bytes b = Inr (if length b = 1 \<and> hd b < 0x80 then b else of_nat (0x80 + length b) # b)"
  by (simp add: rlp_encode_bytes_single rlp_encode_bytes_short)

lemma rlp_encode_bytes_ne: "rlp_encode_bytes b = Inr e \<Longrightarrow> e \<noteq> []"
  by (auto simp: rlp_encode_bytes_def py_bytes1_def bind_err_def Let_def split: if_splits)

lemma encoded_key_PInt:
  assumes "- SHORT_KEY_BOUND \<le> j" "j < SHORT_KEY_BOUND"
  shows "\<exists>k2. rlp_encode_bytes (int_to_bytes j) = Inr k2
            \<and> encoded_key (PInt j) = Inr ([int_to_bytes j], [k2])"
proof -
  have "length (int_to_bytes j) \<le> 54 + 1"
    using assms by (intro int_to_bytes_length) (simp_all add: SHORT_KEY_BOUND_def)
  then have "length (int_to_bytes j) \<le> 55"
    by simp
  from rlp_encode_bytes_le55 [OF this] show ?thesis
    by (simp add: encoded_key_def get_encoded_key_v1_def get_encoded_key_v2_def bind_err_def)
qed

lemma SIZE_BYTE_KEY_eq: "SIZE_BYTE_KEY = ([[0x73, 0x69, 0x7A, 0x65]], [[]])"
  by (simp add: SIZE_BYTE_KEY_def get_encoded_key_v1_def utf8_encode_size)

lemmas key_eval = encoded_key_def get_encoded_key_v1_def get_encoded_key_v2_def utf8_encode_def
  utf8_encode_cp_def bind_err_def rlp_encode_bytes_def py_bytes1_def int_to_bytes.simps


text \<open>
  The size key and the index keys. For every integer index whose key can be built, the
  V2 index key differs from the V2 size key (the empty byte string, which no framed key
  equals), and the V1 index key differs from the V1 size key unless the index is
  \<open>1936292453\<close>.
\<close>

lemma size_key_vs_index_key:
  assumes "encoded_key (PInt i) = Inr k"
  shows "candidate V2 k \<noteq> candidate V2 SIZE_BYTE_KEY
     \<and> (i \<noteq> 1936292453 \<longrightarrow> candidate V1 k \<noteq> candidate V1 SIZE_BYTE_KEY)"
proof -
  from assms obtain k2 where k: "k = ([int_to_bytes i], [k2])" and k2: "rlp_encode_bytes (int_to_bytes i) = Inr k2"
    by (auto simp: encoded_key_def get_encoded_key_v1_def get_encoded_key_v2_def bind_err_def
        split: sum.splits)
  from k2 have "k2 \<noteq> []"
    by (rule rlp_encode_bytes_ne)
  moreover have "int_to_bytes i \<noteq> [0x73, 0x69, 0x7A, 0x65]" if "i \<noteq> 1936292453"
    using that int_to_bytes_inj [of i 1936292453] by (auto simp: int_to_bytes_size)
  ultimately show ?thesis
    by (simp add: k SIZE_BYTE_KEY_eq)
qed

lemma size_key_vs_index_key_example:
  "encoded_key (PInt 5) = Inr ([[5]], [[5]]) \<and> (5::int) \<noteq> 1936292453
   \<and> candidate V2 ([[5]], [[5]]) \<noteq> candidate V2 SIZE_BYTE_KEY
   \<and> candidate V1 ([[5]], [[5]]) \<noteq> candidate V1 SIZE_BYTE_KEY"
proof -
  have e: "encoded_key (PInt 5) = Inr ([[5]], [[5]])"
    by (simp add: key_eval)
  from size_key_vs_index_key [OF e] e show ?thesis
    by simp
qed

text \<open>
  C4. The claim is that under each scheme the reserved size key differs from the key of
  every non-negative index. The code breaks it at one index: the V1 size key is
  \<^verbatim>\<open>get_encoded_key_v1('size')\<close>, the four bytes \<^verbatim>\<open>73 69 7A 65\<close>, and these are also
  the minimal two's-complement bytes of the integer \<open>1936292453 = 0x73697A65\<close>, so
  that \<^verbatim>\<open>get_encoded_key_v1(1936292453)\<close> is the reserved key. The V2 candidate written
  next to it in \<^verbatim>\<open>__SIZE_BYTE_KEY\<close>, the empty byte string, is reserved as the claim
  says.
\<close>

theorem size_key_collides_v1:
  "get_encoded_key_v1 (PInt 1936292453) = get_encoded_key_v1 (PStr [0x73, 0x69, 0x7A, 0x65])
   \<and> map_sum id (candidate V1) (encoded_key (PInt 1936292453)) = Inr (candidate V1 SIZE_BYTE_KEY)
   \<and> map_sum id (candidate V2) (encoded_key (PInt 1936292453))
        = Inr [[0x84, 0x73, 0x69, 0x7A, 0x65]]
   \<and> candidate V2 SIZE_BYTE_KEY = [[]]"
proof -
  have "encoded_key (PInt 1936292453) = Inr ([int_to_bytes 1936292453], [0x84 # int_to_bytes 1936292453])"
    by (simp add: encoded_key_def get_encoded_key_v1_def get_encoded_key_v2_def bind_err_def
        int_to_bytes_size rlp_encode_bytes_def py_bytes1_def)
  then show ?thesis
  by (simp add: get_encoded_key_v1_def utf8_encode_size int_to_bytes_size SIZE_BYTE_KEY_eq)
qed


section \<open>Properties of the containers\<close>

subsection \<open>The state database\<close>

lemma scheme_db_put [simp]: "scheme (db_put st db k v) = scheme st"
  by (simp add: db_put_def)

lemma scheme_db_delete [simp]: "scheme (db_delete st db k) = scheme st"
  by (simp add: db_delete_def)

lemma db_get_put:
  "db_get (db_put st db k v) db' k' =
     (if final_key (scheme st) db' k' = final_key (scheme st) db k then Some v
      else db_get st db' k')"
  by (simp add: db_get_def db_put_def)

lemma db_get_delete:
  "db_get (db_delete st db k) db' k' =
     (if final_key (scheme st) db' k' = final_key (scheme st) db k then None
      else db_get st db' k')"
  by (simp add: db_get_def db_delete_def)


subsection \<open>Indexing an ArrayDB\<close>

lemma ArrayDB__get_in_range:
  "index_int index = Some i \<Longrightarrow> 0 \<le> resolved_index i sz \<Longrightarrow> resolved_index i sz < sz \<Longrightarrow>
   ArrayDB__get st db sz index vt =
     bind_err (encoded_key (PInt (resolved_index i sz))) (\<lambda>k. decode_object (db_get st db k) vt)"
  by (auto simp: ArrayDB__get_def Let_def resolved_index_def)

lemma ArrayDB__get_out_of_range:
  "index_int index = Some i \<Longrightarrow> \<not> (0 \<le> resolved_index i sz \<and> resolved_index i sz < sz) \<Longrightarrow>
   ArrayDB__get st db sz index vt = Inl (InvalidParamsException ''ArrayDB out of index'')"
  by (auto simp: ArrayDB__get_def Let_def resolved_index_def)

lemma ArrayDB_setitem_in_range:
  "index_int index = Some i \<Longrightarrow> 0 \<le> resolved_index i (arr_size a) \<Longrightarrow>
   resolved_index i (arr_size a) < arr_size a \<Longrightarrow>
   ArrayDB_setitem a st index v =
     bind_err (encoded_key (PInt (resolved_index i (arr_size a)))) (\<lambda>k.
     bind_err (encode_value v) (\<lambda>bv. Inr (db_put st (arr_db a) k bv)))"
  by (auto simp: ArrayDB_setitem_def ArrayDB__put_def Let_def resolved_index_def)

lemma ArrayDB_setitem_out_of_range:
  "index_int index = Some i \<Longrightarrow>
   \<not> (0 \<le> resolved_index i (arr_size a) \<and> resolved_index i (arr_size a) < arr_size a) \<Longrightarrow>
   ArrayDB_setitem a st index v = Inl (InvalidParamsException ''ArrayDB out of index'')"
  by (auto simp: ArrayDB_setitem_def Let_def resolved_index_def)

lemma resolved_index_idem: "0 \<le> j \<Longrightarrow> resolved_index j sz = j"
  by (simp add: resolved_index_def)

text \<open>
  C6. With \<open>L\<close> the cached length: \<open>get\<close> and \<open>set\<close> fail with the message
  \<^verbatim>\<open>Invalid index type: not an integer\<close> on an index that is not an integer (a Python
  boolean is one); otherwise they replace a negative index \<open>i\<close> by \<open>i + L\<close>; when the
  resolved index \<open>j\<close> satisfies \<open>0 \<le> j < L\<close> they read, respectively write, the entry
  of index \<open>j\<close>, and a \<open>set\<close> of a value of the element type succeeds and is read back
  by \<open>get\<close>; in all other cases they fail with \<^verbatim>\<open>ArrayDB out of index\<close>. For \<open>L = 5\<close>:
  \<open>get(-1) = get(4)\<close>, \<open>get(-5) = get(0)\<close> and \<open>get(-6)\<close> is out of index. (Both
  failures are \<^verbatim>\<open>InvalidParamsException\<close>s in the source, told apart by their message.)
\<close>

theorem ArrayDB_index_rules:
  "(index_int index = None \<longrightarrow>
        ArrayDB_get a st index = Inl (InvalidParamsException ''Invalid index type: not an integer'')
      \<and> ArrayDB_setitem a st index v
          = Inl (InvalidParamsException ''Invalid index type: not an integer''))
   \<and> (\<forall>i j. index_int index = Some i \<and> j = resolved_index i (arr_size a) \<longrightarrow>
        (if 0 \<le> j \<and> j < arr_size a then
           ArrayDB_get a st index =
             bind_err (encoded_key (PInt j)) (\<lambda>k.
               decode_object (db_get st (arr_db a) k) (arr_value_type a))
         \<and> ArrayDB_setitem a st index v =
             bind_err (encoded_key (PInt j)) (\<lambda>k.
             bind_err (encode_value v) (\<lambda>bv. Inr (db_put st (arr_db a) k bv)))
         \<and> (j < SHORT_KEY_BOUND \<and> logical_value v (arr_value_type a) \<longrightarrow>
              (\<exists>st'. ArrayDB_setitem a st index v = Inr st'
                 \<and> ArrayDB_get a st' index = Inr v \<and> ArrayDB_get a st' (PInt j) = Inr v))
         else
           ArrayDB_get a st index = Inl (InvalidParamsException ''ArrayDB out of index'')
         \<and> ArrayDB_setitem a st index v = Inl (InvalidParamsException ''ArrayDB out of index'')))
   \<and> (arr_size a = 5 \<longrightarrow>
         ArrayDB_get a st (PInt (- 1)) = ArrayDB_get a st (PInt 4)
       \<and> ArrayDB_get a st (PInt (- 5)) = ArrayDB_get a st (PInt 0)
       \<and> ArrayDB_get a st (PInt (- 6)) = Inl (InvalidParamsException ''ArrayDB out of index''))"
proof (intro conjI impI allI)
  assume "index_int index = None"
  then show "ArrayDB_get a st index
      = Inl (InvalidParamsException ''Invalid index type: not an integer'')"
    and "ArrayDB_setitem a st index v
      = Inl (InvalidParamsException ''Invalid index type: not an integer'')"
    by (simp_all add: ArrayDB_get_def ArrayDB_getitem_def ArrayDB__get_def ArrayDB_setitem_def)
next
  fix i j
  assume ij: "index_int index = Some i \<and> j = resolved_index i (arr_size a)"
  show "if 0 \<le> j \<and> j < arr_size a then
           ArrayDB_get a st index =
             bind_err (encoded_key (PInt j)) (\<lambda>k.
               decode_object (db_get st (arr_db a) k) (arr_value_type a))
         \<and> ArrayDB_setitem a st index v =
             bind_err (encoded_key (PInt j)) (\<lambda>k.
             bind_err (encode_value v) (\<lambda>bv. Inr (db_put st (arr_db a) k bv)))
         \<and> (j < SHORT_KEY_BOUND \<and> logical_value v (arr_value_type a) \<longrightarrow>
              (\<exists>st'. ArrayDB_setitem a st index v = Inr st'
                 \<and> ArrayDB_get a st' index = Inr v \<and> ArrayDB_get a st' (PInt j) = Inr v))
         else
           ArrayDB_get a st index = Inl (InvalidParamsException ''ArrayDB out of index'')
         \<and> ArrayDB_setitem a st index v = Inl (InvalidParamsException ''ArrayDB out of index'')"
  proof (cases "0 \<le> j \<and> j < arr_size a")
    case False
    with ij have "ArrayDB_get a st index = Inl (InvalidParamsException ''ArrayDB out of index'')"
      and "ArrayDB_setitem a st index v = Inl (InvalidParamsException ''ArrayDB out of index'')"
      by (simp_all add: ArrayDB_get_def ArrayDB_getitem_def ArrayDB__get_out_of_range
          ArrayDB_setitem_out_of_range)
    then show ?thesis
      by (simp only: if_not_P [OF False] simp_thms)
  next
    case True
    have get: "ArrayDB_get a s index =
             bind_err (encoded_key (PInt j)) (\<lambda>k.
               decode_object (db_get s (arr_db a) k) (arr_value_type a))" for s
      using ij True by (simp add: ArrayDB_get_def ArrayDB_getitem_def ArrayDB__get_in_range)
    have getj: "ArrayDB_get a s (PInt j) = ArrayDB_get a s index" for s
      unfolding get using True
      by (simp add: ArrayDB_get_def ArrayDB_getitem_def resolved_index_idem
          ArrayDB__get_in_range [where i = j])
    have set: "ArrayDB_setitem a st index v =
             bind_err (encoded_key (PInt j)) (\<lambda>k.
             bind_err (encode_value v) (\<lambda>bv. Inr (db_put st (arr_db a) k bv)))"
      using ij True by (simp add: ArrayDB_setitem_in_range)
    have "\<exists>st'. ArrayDB_setitem a st index v = Inr st'
                 \<and> ArrayDB_get a st' index = Inr v \<and> ArrayDB_get a st' (PInt j) = Inr v"
      if "j < SHORT_KEY_BOUND \<and> logical_value v (arr_value_type a)"
    proof -
      from that True obtain k where k: "encoded_key (PInt j) = Inr k"
        using encoded_key_PInt [of j] SHORT_KEY_BOUND_pos by auto
      from that obtain bv where bv: "encode_value v = Inr bv"
        and dec: "decode_object (Some bv) (arr_value_type a) = Inr v"
        using encode_value_decode_object by blast
      show ?thesis
        unfolding getj unfolding get set by (simp add: k bv bind_err_def db_get_put dec)
    qed
    with True get set show ?thesis
      by simp
  qed
next
  assume 5: "arr_size a = 5"
  show "ArrayDB_get a st (PInt (- 1)) = ArrayDB_get a st (PInt 4)"
    and "ArrayDB_get a st (PInt (- 5)) = ArrayDB_get a st (PInt 0)"
    and "ArrayDB_get a st (PInt (- 6)) = Inl (InvalidParamsException ''ArrayDB out of index'')"
    by (simp_all add: ArrayDB_get_def ArrayDB_getitem_def ArrayDB__get_def 5)
qed

theorem ArrayDB_index_rules_witness:
  "index_int (PInt (- 1)) = Some (- 1) \<and> index_int (PStr [0x31]) = None
   \<and> resolved_index (- 1) 5 = 4 \<and> (4::int) < SHORT_KEY_BOUND \<and> logical_value (PInt 9) TInt
   \<and> ArrayDB_get \<lparr>arr_db = root_db, arr_value_type = TInt, arr_size = 5\<rparr> (empty_store V2)
         (PStr [0x31]) = Inl (InvalidParamsException ''Invalid index type: not an integer'')
   \<and> (\<exists>st'. ArrayDB_setitem \<lparr>arr_db = root_db, arr_value_type = TInt, arr_size = 5\<rparr>
                (empty_store V2) (PInt (- 1)) (PInt 9) = Inr st'
          \<and> ArrayDB_get \<lparr>arr_db = root_db, arr_value_type = TInt, arr_size = 5\<rparr> st' (PInt (- 1))
              = Inr (PInt 9)
          \<and> ArrayDB_get \<lparr>arr_db = root_db, arr_value_type = TInt, arr_size = 5\<rparr> st' (PInt 4)
              = Inr (PInt 9))
   \<and> ArrayDB_get \<lparr>arr_db = root_db, arr_value_type = TInt, arr_size = 5\<rparr> (empty_store V2)
         (PInt (- 6)) = Inl (InvalidParamsException ''ArrayDB out of index'')"
  using ArrayDB_index_rules [of "PInt (- 1)"
      "\<lparr>arr_db = root_db, arr_value_type = TInt, arr_size = 5\<rparr>" "empty_store V2" "PInt 9"]
    ArrayDB_index_rules [of "PStr [0x31]"
      "\<lparr>arr_db = root_db, arr_value_type = TInt, arr_size = 5\<rparr>" "empty_store V2" "PInt 9"]
  by (auto simp: resolved_index_def SHORT_KEY_BOUND_def key_eval)


subsection \<open>DictDB\<close>

lemma DictDB_init_sub:
  assumes "DictDB_init var_key db vt depth = Inr d"
  shows "\<not> db_is_root (dict_db d)" "dict_value_type d = vt" "dict_depth d = depth"
  using assms by (auto simp: DictDB_init_def bind_err_def get_sub_db_def split: sum.splits)

text \<open>
  C7. For a \<^verbatim>\<open>DictDB\<close> built with nesting depth \<open>depth\<close>: \<open>set\<close>, \<open>remove\<close> and
  \<open>del\<close> fail with \<^verbatim>\<open>InvalidContainerAccessException\<close> when \<open>depth \<noteq> 1\<close>, so they
  succeed only when \<open>depth = 1\<close>; \<open>get\<close> at a depth above 1 returns, for every store
  and every key that can be encoded, the nested \<^verbatim>\<open>DictDB\<close> scoped to the key with depth
  \<open>depth - 1\<close> (the result does not mention the store: nothing is read); and \<open>get\<close>
  returns a decoded stored value only when \<open>depth = 1\<close>.
\<close>

theorem DictDB_depth_rules:
  assumes "DictDB_init var_key db vt depth = Inr d"
  shows "(depth \<noteq> 1 \<longrightarrow>
            DictDB_setitem d st key v = Inl (InvalidContainerAccessException ''DictDB depth mismatch'')
          \<and> DictDB_remove d st key = Inl (InvalidContainerAccessException ''DictDB depth mismatch'')
          \<and> DictDB_delitem d st key = Inl (InvalidContainerAccessException ''DictDB depth mismatch''))
    \<and> (DictDB_setitem d st key v = Inr st' \<or> DictDB_remove d st key = Inr st'
          \<or> DictDB_delitem d st key = Inr st' \<longrightarrow> depth = 1)
    \<and> (1 < depth \<and> encoded_key key = Inr k \<longrightarrow>
            DictDB_getitem d st key =
              Inr (Item_dict \<lparr>dict_db = get_sub_db (dict_db d) k, dict_value_type = vt,
                                dict_depth = depth - 1\<rparr>))
    \<and> (DictDB_getitem d st key = Inr (Item_value x) \<longrightarrow> depth = 1)
    \<and> (depth = 1 \<and> encoded_key key = Inr k \<longrightarrow>
            DictDB_getitem d st key =
              bind_err (decode_object (db_get st (dict_db d) k) vt) (\<lambda>x. Inr (Item_value x)))"
proof -
  note d = DictDB_init_sub [OF assms]
  have 1: "DictDB_setitem d st key v = Inl (InvalidContainerAccessException ''DictDB depth mismatch'')
          \<and> DictDB_remove d st key = Inl (InvalidContainerAccessException ''DictDB depth mismatch'')
          \<and> DictDB_delitem d st key = Inl (InvalidContainerAccessException ''DictDB depth mismatch'')"
    if "depth \<noteq> 1"
    using that d by (simp add: DictDB_setitem_def DictDB_remove_def DictDB_delitem_def DictDB__remove_def)
  have 2: "depth = 1"
    if "DictDB_setitem d st key v = Inr st' \<or> DictDB_remove d st key = Inr st'
          \<or> DictDB_delitem d st key = Inr st'"
    using that 1 by (cases "depth = 1") auto
  have 3: "DictDB_getitem d st key =
              Inr (Item_dict \<lparr>dict_db = get_sub_db (dict_db d) k, dict_value_type = vt,
                                dict_depth = depth - 1\<rparr>)"
    if "1 < depth \<and> encoded_key key = Inr k"
    using that d by (simp add: DictDB_getitem_def DictDB_init_def bind_err_def)
  have 4: "depth = 1" if "DictDB_getitem d st key = Inr (Item_value x)"
    using that d by (cases "depth = 1") (auto simp: DictDB_getitem_def bind_err_def split: sum.splits)
  have 5: "DictDB_getitem d st key =
              bind_err (decode_object (db_get st (dict_db d) k) vt) (\<lambda>x. Inr (Item_value x))"
    if "depth = 1 \<and> encoded_key key = Inr k"
    using that d by (simp add: DictDB_getitem_def bind_err_def)
  from 1 2 3 4 5 show ?thesis
    by blast
qed

theorem DictDB_depth_rules_witness:
  "DictDB_init (PStr [0x6D]) root_db TInt 2
     = Inr \<lparr>dict_db = \<lparr>db_is_root = False, db_prefix = ([[0x01], [0x6D]], [[0x01], [0x6D]])\<rparr>,
            dict_value_type = TInt, dict_depth = 2\<rparr>
   \<and> encoded_key (PInt 7) = Inr ([[7]], [[7]])
   \<and> DictDB_setitem \<lparr>dict_db = \<lparr>db_is_root = False,
          db_prefix = ([[0x01], [0x6D]], [[0x01], [0x6D]])\<rparr>,
          dict_value_type = TInt, dict_depth = 2\<rparr> (empty_store V2) (PInt 7) (PInt 1)
       = Inl (InvalidContainerAccessException ''DictDB depth mismatch'')
   \<and> DictDB_getitem \<lparr>dict_db = \<lparr>db_is_root = False,
          db_prefix = ([[0x01], [0x6D]], [[0x01], [0x6D]])\<rparr>,
          dict_value_type = TInt, dict_depth = 2\<rparr> (empty_store V2) (PInt 7)
       = Inr (Item_dict \<lparr>dict_db = \<lparr>db_is_root = False,
          db_prefix = ([[0x01], [0x6D], [7]], [[0x01], [0x6D], [7]])\<rparr>,
          dict_value_type = TInt, dict_depth = 1\<rparr>)
   \<and> DictDB_init (PInt 7) \<lparr>db_is_root = False,
          db_prefix = ([[0x01], [0x6D]], [[0x01], [0x6D]])\<rparr> TInt 1
       = Inr \<lparr>dict_db = \<lparr>db_is_root = False,
          db_prefix = ([[0x01], [0x6D], [7]], [[0x01], [0x6D], [7]])\<rparr>,
          dict_value_type = TInt, dict_depth = 1\<rparr>
   \<and> DictDB_getitem \<lparr>dict_db = \<lparr>db_is_root = False,
          db_prefix = ([[0x01], [0x6D], [7]], [[0x01], [0x6D], [7]])\<rparr>,
          dict_value_type = TInt, dict_depth = 1\<rparr> (empty_store V2) (PInt 7)
       = Inr (Item_value (PInt 0))"
proof -
  let ?h = "\<lparr>db_is_root = False, db_prefix = ([[0x01], [0x6D]], [[0x01::byte], [0x6D::byte]])\<rparr>"
  have e: "encoded_key (PInt 7) = Inr ([[7]], [[7]])"
    by (simp add: key_eval)
  have i2: "DictDB_init (PStr [0x6D]) root_db TInt 2
     = Inr \<lparr>dict_db = ?h, dict_value_type = TInt, dict_depth = 2\<rparr>"
    by (simp add: DictDB_init_def create_db_prefix_def key_eval get_sub_db_def root_db_def
        DICT_DB_ID_def)
  have i1: "DictDB_init (PInt 7) ?h TInt 1
       = Inr \<lparr>dict_db = \<lparr>db_is_root = False,
          db_prefix = ([[0x01], [0x6D], [7]], [[0x01], [0x6D], [7]])\<rparr>,
          dict_value_type = TInt, dict_depth = 1\<rparr>"
    by (simp add: DictDB_init_def e get_sub_db_def bind_err_def)
  from DictDB_depth_rules [OF i2, of "empty_store V2" "PInt 7" "PInt 1" "empty_store V2"
      "([[7]], [[7]])"]
    DictDB_depth_rules [OF i1, of "empty_store V2" "PInt 7" "PInt 1" "empty_store V2"
      "([[7]], [[7]])"]
  show ?thesis
    by (simp add: i1 i2 e get_sub_db_def db_get_def empty_store_def decode_object_def bind_err_def)
qed


subsection \<open>VarDB\<close>

text \<open>
  C8. A \<^verbatim>\<open>VarDB\<close> returns the default of its value type when nothing is stored under
  its key, and again after \<open>set\<close> followed by \<open>remove\<close>; the defaults are \<open>0\<close>, the
  empty string, \<^verbatim>\<open>False\<close>, and \<^verbatim>\<open>None\<close> for an address or a byte string.
\<close>

theorem VarDB_zero_value:
  assumes "VarDB_init var_key db value_type = Inr x"
  shows "(db_get st (var_db x) (var_byte_key x) = None \<longrightarrow>
            VarDB_get x st = Inr (get_default_value value_type))
    \<and> (VarDB_set x st v = Inr st' \<longrightarrow>
            VarDB_get x (VarDB_remove x st') = Inr (get_default_value value_type))
    \<and> get_default_value TInt = PInt 0 \<and> get_default_value TStr = PStr []
    \<and> get_default_value TBool = PBool False
    \<and> get_default_value TAddress = PNone \<and> get_default_value TBytes = PNone"
proof -
  from assms have vt: "var_value_type x = value_type"
    by (auto simp: VarDB_init_def bind_err_def Let_def split: sum.splits)
  have "VarDB_get x (VarDB_remove x s) = Inr (get_default_value value_type)" for s
    by (simp add: VarDB_get_def VarDB_remove_def db_get_delete decode_object_def vt)
  moreover have "VarDB_get x st = Inr (get_default_value value_type)"
    if "db_get st (var_db x) (var_byte_key x) = None"
    using that by (simp add: VarDB_get_def decode_object_def vt)
  ultimately show ?thesis
    by simp
qed


theorem VarDB_zero_value_witness:
  "VarDB_init (PStr [0x63]) root_db TInt
     = Inr \<lparr>var_db = \<lparr>db_is_root = False, db_prefix = ([[0x02]], [[0x02]])\<rparr>,
            var_byte_key = ([[0x63]], [[0x63]]), var_value_type = TInt\<rparr>
   \<and> VarDB_get \<lparr>var_db = \<lparr>db_is_root = False, db_prefix = ([[0x02]], [[0x02]])\<rparr>,
            var_byte_key = ([[0x63]], [[0x63]]), var_value_type = TInt\<rparr> (empty_store V2)
       = Inr (PInt 0)
   \<and> (\<exists>st'. VarDB_set \<lparr>var_db = \<lparr>db_is_root = False, db_prefix = ([[0x02]], [[0x02]])\<rparr>,
            var_byte_key = ([[0x63]], [[0x63]]), var_value_type = TInt\<rparr> (empty_store V2) (PInt 42)
          = Inr st'
        \<and> VarDB_get \<lparr>var_db = \<lparr>db_is_root = False, db_prefix = ([[0x02]], [[0x02]])\<rparr>,
            var_byte_key = ([[0x63]], [[0x63]]), var_value_type = TInt\<rparr> st' = Inr (PInt 42)
        \<and> VarDB_get \<lparr>var_db = \<lparr>db_is_root = False, db_prefix = ([[0x02]], [[0x02]])\<rparr>,
            var_byte_key = ([[0x63]], [[0x63]]), var_value_type = TInt\<rparr>
            (VarDB_remove \<lparr>var_db = \<lparr>db_is_root = False, db_prefix = ([[0x02]], [[0x02]])\<rparr>,
            var_byte_key = ([[0x63]], [[0x63]]), var_value_type = TInt\<rparr> st') = Inr (PInt 0))"
proof -
  let ?x = "\<lparr>var_db = \<lparr>db_is_root = False, db_prefix = ([[0x02]], [[0x02::byte]])\<rparr>,
            var_byte_key = ([[0x63]], [[0x63::byte]]), var_value_type = TInt\<rparr>"
  have i: "VarDB_init (PStr [0x63]) root_db TInt = Inr ?x"
    by (simp add: VarDB_init_def key_eval get_sub_db_def root_db_def VAR_DB_ID_def)
  have s: "VarDB_set ?x (empty_store V2) (PInt 42)
      = Inr (db_put (empty_store V2) (var_db ?x) (var_byte_key ?x) [42])"
    by (simp add: VarDB_set_def key_eval)
  have g: "VarDB_get ?x (db_put (empty_store V2) (var_db ?x) (var_byte_key ?x) [42])
      = Inr (PInt 42)"
    by (simp add: VarDB_get_def db_get_put decode_object_def bind_err_def)
  have n: "db_get (empty_store V2) (var_db ?x) (var_byte_key ?x) = None"
    by (simp add: db_get_def empty_store_def)
  from VarDB_zero_value [OF i, of "empty_store V2" "PInt 42"
      "db_put (empty_store V2) (var_db ?x) (var_byte_key ?x) [42]"] i s g n
  show ?thesis
    by simp
qed


subsection \<open>The frame is prefix-free\<close>

lemma rlp_encode_bytes_cases:
  assumes "rlp_encode_bytes b = Inr e"
  obtains (single) "length b = 1" "unat (hd b) < 128" "e = b"
  | (short) h where "length b \<le> 55" "e = h # b" "unat h = 128 + length b"
  | (long) h lb where "55 < length b" "lb = rlp_get_bytes (int (length b))" "e = h # lb @ b"
      "unat h = 183 + length lb" "0 < length lb" "length lb < 73"
proof (cases "length b = 1 \<and> hd b < 0x80")
  case True
  then have "unat (hd b) < 128"
    by (simp add: word_less_nat_alt)
  with True assms show ?thesis
    by (intro single) (simp_all add: rlp_encode_bytes_single)
next
  case False
  show ?thesis
  proof (cases "length b \<le> 55")
    case True
    with False assms have "e = of_nat (0x80 + length b) # b"
      by (simp add: rlp_encode_bytes_short)
    moreover have "unat (of_nat (0x80 + length b) :: byte) = 128 + length b"
      using True by (intro unat_of_nat_byte [THEN trans]) simp_all
    ultimately show ?thesis
      using True by (intro short)
  next
    case big: False
    let ?lb = "rlp_get_bytes (int (length b))"
    let ?h = "of_nat (0x80 + 55 + length ?lb) :: byte"
    from big have f1: "55 < length b"
      by simp
    from big assms have lt: "length ?lb + 183 < 256"
      by (auto simp: rlp_encode_bytes_def py_bytes1_def bind_err_def Let_def split: if_splits)
    then have f6: "length ?lb < 73"
      by simp
    from f1 f6 assms have f3: "e = ?h # ?lb @ b"
      by (simp add: rlp_encode_bytes_long)
    have f4: "unat ?h = 183 + length ?lb"
      using lt by (intro unat_of_nat_byte [THEN trans]) simp_all
    have f5: "0 < length ?lb"
    proof -
      from big have "0 < length b" by arith
      from rlp_get_bytes_hd [OF this] show ?thesis by simp
    qed
    show ?thesis
      by (rule long [OF f1 refl f3 f4 f5 f6])
  qed
qed

lemma rlp_encode_bytes_prefix_free:
  assumes a: "rlp_encode_bytes a = Inr ea" and b: "rlp_encode_bytes b = Inr eb"
    and eq: "ea @ x = eb @ y"
  shows "a = b"
proof -
  have ne: "ea \<noteq> []" "eb \<noteq> []"
    using a b by (auto dest: rlp_encode_bytes_ne)
  then have "hd (ea @ x) = hd ea" "hd (eb @ y) = hd eb"
    by simp_all
  with eq have hd: "unat (hd ea) = unat (hd eb)"
    by simp
  from a show ?thesis
  proof (cases rule: rlp_encode_bytes_cases)
    case single
    then obtain a0 where a0: "a = [a0]"
      by (cases a) auto
    from single have ha: "unat (hd ea) < 128"
      by simp
    from b show ?thesis
    proof (cases rule: rlp_encode_bytes_cases)
      case single
      then obtain b0 where b0: "b = [b0]"
        by (cases b) auto
      from eq have "a0 = b0"
        unfolding \<open>ea = a\<close> \<open>eb = b\<close> a0 b0 by simp
      then show ?thesis
        by (simp add: a0 b0)
    next
      case (short h)
      then have "unat (hd eb) = 128 + length b"
        by simp
      with ha hd show ?thesis
        by simp
    next
      case (long h lb)
      then have "unat (hd eb) = 183 + length lb"
        by simp
      with ha hd show ?thesis
        by simp
    qed
  next
    case sa: (short h)
    then have ha: "unat (hd ea) = 128 + length a"
      by simp
    from b show ?thesis
    proof (cases rule: rlp_encode_bytes_cases)
      case single
      then have "unat (hd eb) < 128"
        by simp
      with ha hd show ?thesis
        by simp
    next
      case (short h')
      then have "unat (hd eb) = 128 + length b"
        by simp
      with ha hd have len: "length a = length b"
        by simp
      from eq have "a @ x = b @ y"
        unfolding \<open>ea = h # a\<close> \<open>eb = h' # b\<close> by simp
      with len show ?thesis
        by simp
    next
      case (long h' lb)
      then have "unat (hd eb) = 183 + length lb"
        by simp
      with ha hd sa(1) long(5) show ?thesis
        by simp
    qed
  next
    case la: (long h lb)
    then have ha: "unat (hd ea) = 183 + length lb"
      by simp
    from b show ?thesis
    proof (cases rule: rlp_encode_bytes_cases)
      case single
      then have "unat (hd eb) < 128"
        by simp
      with ha hd show ?thesis
        by simp
    next
      case (short h')
      then have "unat (hd eb) = 128 + length b"
        by simp
      with ha hd short(1) la(5) show ?thesis
        by simp
    next
      case (long h' lb')
      then have "unat (hd eb) = 183 + length lb'"
        by simp
      with ha hd have len: "length lb = length lb'"
        by simp
      from eq have rest: "lb @ a @ x = lb' @ b @ y"
        unfolding \<open>ea = h # lb @ a\<close> \<open>eb = h' # lb' @ b\<close> by simp
      with len have lb: "lb = lb'" and ab: "a @ x = b @ y"
        by simp_all
      from lb la(2) long(2)
      have "be_nat (rlp_get_bytes (int (length a))) = be_nat (rlp_get_bytes (int (length b)))"
        by simp
      then have "length a = length b"
        by (simp add: be_nat_rlp_get_bytes)
      with ab show ?thesis
        by simp
    qed
  qed
qed

lemma rlp_encode_bytes_inj:
  "rlp_encode_bytes a = Inr e \<Longrightarrow> rlp_encode_bytes b = Inr e \<Longrightarrow> a = b"
  using rlp_encode_bytes_prefix_free [of a e b e "[]" "[]"] by simp

subsection \<open>Index keys and the size key\<close>

lemma encoded_key_dest:
  assumes "encoded_key k = Inr kc"
  obtains k1 k2 where "kc = ([k1], [k2])" "encode_key k = Inr k1" "rlp_encode_bytes k1 = Inr k2"
  using assms
  by (auto simp: encoded_key_def get_encoded_key_v1_def get_encoded_key_v2_def bind_err_def
      split: sum.splits)

lemma final_key_single:
  "final_key sch db ([k1], [k2]) =
     concat (candidate sch (db_prefix db)) @ (case sch of V1 \<Rightarrow> k1 | V2 \<Rightarrow> k2)"
  by (cases sch) (simp_all add: final_key_def)

lemma final_key_index_inj:
  assumes "encoded_key (PInt i) = Inr ki" "encoded_key (PInt j) = Inr kj"
    and "final_key sch db ki = final_key sch db kj"
  shows "i = j"
proof -
  from assms(1) obtain i2 where ki: "ki = ([int_to_bytes i], [i2])"
    and i2: "rlp_encode_bytes (int_to_bytes i) = Inr i2"
    by (auto elim!: encoded_key_dest)
  from assms(2) obtain j2 where kj: "kj = ([int_to_bytes j], [j2])"
    and j2: "rlp_encode_bytes (int_to_bytes j) = Inr j2"
    by (auto elim!: encoded_key_dest)
  show ?thesis
  proof (cases sch)
    case V1
    with assms(3) show ?thesis
      by (simp add: ki kj final_key_single int_to_bytes_inj)
  next
    case V2
    with assms(3) have "i2 = j2"
      by (simp add: ki kj final_key_single)
    with i2 j2 have "int_to_bytes i = int_to_bytes j"
      by (auto intro: rlp_encode_bytes_inj)
    then show ?thesis
      by (rule int_to_bytes_inj)
  qed
qed

lemma final_key_index_size:
  assumes "encoded_key (PInt i) = Inr ki" and "sch = V2 \<or> i \<noteq> 1936292453"
  shows "final_key sch db ki \<noteq> final_key sch db SIZE_BYTE_KEY"
proof -
  from assms(1) obtain i2 where ki: "ki = ([int_to_bytes i], [i2])"
    and i2: "rlp_encode_bytes (int_to_bytes i) = Inr i2"
    by (auto elim!: encoded_key_dest)
  from i2 have ne: "i2 \<noteq> []"
    by (rule rlp_encode_bytes_ne)
  show ?thesis
  proof (cases sch)
    case V1
    with assms(2) have "int_to_bytes i \<noteq> int_to_bytes 1936292453"
      by (auto dest: int_to_bytes_inj)
    with V1 show ?thesis
      by (simp add: ki final_key_single SIZE_BYTE_KEY_eq int_to_bytes_size)
  next
    case V2
    with ne show ?thesis
      by (simp add: ki final_key_single SIZE_BYTE_KEY_eq)
  qed
qed

lemma elem_at_put_index:
  "encoded_key (PInt i) = Inr ki \<Longrightarrow>
   elem_at (db_put st db ki v) db j = (if j = i then Some v else elem_at st db j)"
  by (auto simp: elem_at_def db_get_put split: sum.splits dest: final_key_index_inj)

lemma elem_at_delete_index:
  "encoded_key (PInt i) = Inr ki \<Longrightarrow>
   elem_at (db_delete st db ki) db j = (if j = i then None else elem_at st db j)"
  by (auto simp: elem_at_def db_get_delete split: sum.splits dest: final_key_index_inj)

lemma elem_at_put_size:
  "scheme st = V2 \<or> j \<noteq> 1936292453 \<Longrightarrow>
   elem_at (db_put st db SIZE_BYTE_KEY v) db j = elem_at st db j"
  using final_key_index_size [of j _ "scheme st" db]
  by (auto simp: elem_at_def db_get_put split: sum.splits)

lemma ArrayDB_put_eq:
  assumes "encoded_key (PInt (arr_size a)) = Inr k" "encode_value v = Inr bv"
  shows "ArrayDB_put a st v =
     Inr (a\<lparr>arr_size := arr_size a + 1\<rparr>,
          db_put (db_put st (arr_db a) k bv) (arr_db a) SIZE_BYTE_KEY
            (int_to_bytes (arr_size a + 1)))"
  using assms
  by (simp add: ArrayDB_put_def ArrayDB__put_def ArrayDB__set_size_def bind_err_def Let_def)

lemma ArrayDB_pop_empty: "arr_size a = 0 \<Longrightarrow> ArrayDB_pop a st = Inr (PNone, a, st)"
  by (simp add: ArrayDB_pop_def)

lemma ArrayDB_pop_eq:
  assumes "0 < arr_size a" "encoded_key (PInt (arr_size a - 1)) = Inr k"
    and "decode_object (db_get st (arr_db a) k) (arr_value_type a) = Inr r"
  shows "ArrayDB_pop a st =
     Inr (r, a\<lparr>arr_size := arr_size a - 1\<rparr>,
          db_put (db_delete st (arr_db a) k) (arr_db a) SIZE_BYTE_KEY
            (int_to_bytes (arr_size a - 1)))"
  using assms
  by (simp add: ArrayDB_pop_def ArrayDB_getitem_def ArrayDB__get_def ArrayDB__set_size_def
      bind_err_def Let_def)

subsection \<open>Appends and pops\<close>

lemma index_limit_le: "index_limit sch \<le> SHORT_KEY_BOUND"
  by (cases sch) (simp_all add: SHORT_KEY_BOUND_def)

lemma index_limit_safe: "i < index_limit sch \<Longrightarrow> sch = V2 \<or> i \<noteq> 1936292453"
  by (cases sch) simp_all

lemma index_key_exists:
  assumes "0 \<le> i" "i < index_limit sch"
  shows "\<exists>k. encoded_key (PInt i) = Inr k"
proof -
  from assms index_limit_le [of sch] have "- SHORT_KEY_BOUND \<le> i" "i < SHORT_KEY_BOUND"
    using SHORT_KEY_BOUND_pos by simp_all
  from encoded_key_PInt [OF this] show ?thesis
    by blast
qed

lemma decode_after_encode:
  "logical_value v T \<Longrightarrow> encode_value v = Inr bv \<Longrightarrow> decode_object (Some bv) T = Inr v"
  using encode_value_decode_object [of v T] by auto

lemma logical_value_encodes:
  assumes "logical_value v T"
  obtains bv where "encode_value v = Inr bv" "decode_object (Some bv) T = Inr v"
  using encode_value_decode_object [OF assms] by blast

lemma arr_inv_elem:
  assumes "arr_inv a st xs" "i < length xs"
  obtains bv where "elem_at st (arr_db a) (int i) = Some bv" "encode_value (xs ! i) = Inr bv"
    "logical_value (xs ! i) (arr_value_type a)"
  using assms unfolding arr_inv_def by blast

lemma arr_inv_get:
  assumes inv: "arr_inv a st xs" and i: "i < length xs"
  shows "ArrayDB_get a st (PInt (int i)) = Inr (xs ! i)"
proof -
  from inv i obtain bv where bv: "elem_at st (arr_db a) (int i) = Some bv"
    "encode_value (xs ! i) = Inr bv" "logical_value (xs ! i) (arr_value_type a)"
    by (rule arr_inv_elem)
  from bv(1) obtain k where k: "encoded_key (PInt (int i)) = Inr k"
    "db_get st (arr_db a) k = Some bv"
    by (auto simp: elem_at_def split: sum.splits)
  from bv(2,3) have "decode_object (Some bv) (arr_value_type a) = Inr (xs ! i)"
    by (intro decode_after_encode)
  moreover from inv have "arr_size a = int (length xs)"
    by (simp add: arr_inv_def)
  ultimately show ?thesis
    using i k
    by (simp add: ArrayDB_get_def ArrayDB_getitem_def ArrayDB__get_def bind_err_def)
qed

lemma arr_inv_put:
  assumes inv: "arr_inv a st xs" and v: "logical_value v (arr_value_type a)"
    and lim: "int (length xs) < index_limit (scheme st)"
  obtains a' st' where "ArrayDB_put a st v = Inr (a', st')" "arr_inv a' st' (xs @ [v])"
    "arr_db a' = arr_db a" "arr_value_type a' = arr_value_type a" "scheme st' = scheme st"
proof -
  let ?n = "int (length xs)"
  from inv have sz: "arr_size a = ?n"
    by (simp add: arr_inv_def)
  from lim obtain k where k: "encoded_key (PInt ?n) = Inr k"
    using index_key_exists [of ?n "scheme st"] by auto
  from v obtain bv where bv: "encode_value v = Inr bv"
    by (rule logical_value_encodes)
  let ?a = "a\<lparr>arr_size := ?n + 1\<rparr>"
  let ?st = "db_put (db_put st (arr_db a) k bv) (arr_db a) SIZE_BYTE_KEY (int_to_bytes (?n + 1))"
  have put: "ArrayDB_put a st v = Inr (?a, ?st)"
    using ArrayDB_put_eq [of a k v bv st] k bv sz by simp
  have safe: "scheme st = V2 \<or> int i \<noteq> 1936292453" if "i \<le> length xs" for i
    using that lim by (intro index_limit_safe) simp
  have elem: "elem_at ?st (arr_db a) (int i) =
      (if i = length xs then Some bv else elem_at st (arr_db a) (int i))" if "i \<le> length xs" for i
    using safe [OF that] by (simp add: elem_at_put_size elem_at_put_index [OF k])
  have "arr_inv ?a ?st (xs @ [v])"
    unfolding arr_inv_def
  proof (intro conjI allI impI)
    show "arr_size ?a = int (length (xs @ [v]))"
      by simp
  next
    fix i assume "i < length (xs @ [v])"
    then have i: "i \<le> length xs" by simp
    show "logical_value ((xs @ [v]) ! i) (arr_value_type ?a)"
    proof (cases "i = length xs")
      case True
      with v show ?thesis by simp
    next
      case False
      with i have "i < length xs" by simp
      with inv show ?thesis
        by (auto simp: nth_append elim: arr_inv_elem)
    qed
    show "\<exists>bv. elem_at ?st (arr_db ?a) (int i) = Some bv \<and> encode_value ((xs @ [v]) ! i) = Inr bv"
    proof (cases "i = length xs")
      case True
      with bv elem [OF i] show ?thesis by simp
    next
      case False
      with i have "i < length xs" by simp
      with inv elem [OF i] False show ?thesis
        by (auto simp: nth_append elim: arr_inv_elem)
    qed
  qed
  with put show ?thesis
    by (intro that [of ?a ?st]) simp_all
qed

lemma arr_inv_pop:
  assumes inv: "arr_inv a st xs" and ne: "xs \<noteq> []"
    and lim: "int (length xs) \<le> index_limit (scheme st)"
  obtains a' st' where "ArrayDB_pop a st = Inr (last xs, a', st')" "arr_inv a' st' (butlast xs)"
    "arr_db a' = arr_db a" "arr_value_type a' = arr_value_type a" "scheme st' = scheme st"
proof -
  let ?m = "length xs - 1"
  from ne have m: "?m < length xs" "int ?m = int (length xs) - 1"
    by (simp_all add: Suc_leI of_nat_diff)
  from inv have sz: "arr_size a = int (length xs)"
    by (simp add: arr_inv_def)
  from m lim have mlim: "int ?m < index_limit (scheme st)"
    by simp
  then obtain k where k: "encoded_key (PInt (int ?m)) = Inr k"
    using index_key_exists [of "int ?m" "scheme st"] by auto
  from inv m(1) obtain bv where bv: "elem_at st (arr_db a) (int ?m) = Some bv"
    "encode_value (xs ! ?m) = Inr bv" "logical_value (xs ! ?m) (arr_value_type a)"
    by (rule arr_inv_elem)
  from bv(1) k have get: "db_get st (arr_db a) k = Some bv"
    by (simp add: elem_at_def)
  from bv(2,3) have dec: "decode_object (Some bv) (arr_value_type a) = Inr (xs ! ?m)"
    by (intro decode_after_encode)
  from ne have last: "xs ! ?m = last xs"
    by (simp add: last_conv_nth)
  let ?a = "a\<lparr>arr_size := int ?m\<rparr>"
  let ?st = "db_put (db_delete st (arr_db a) k) (arr_db a) SIZE_BYTE_KEY (int_to_bytes (int ?m))"
  have pop: "ArrayDB_pop a st = Inr (last xs, ?a, ?st)"
    using ArrayDB_pop_eq [of a k st "last xs"] k get dec last sz m(2) ne by simp
  have elem: "elem_at ?st (arr_db a) (int i) = elem_at st (arr_db a) (int i)" if "i < ?m" for i
  proof -
    from that mlim have "int i < index_limit (scheme st)"
      by simp
    then have safe: "scheme st = V2 \<or> int i \<noteq> 1936292453"
      by (rule index_limit_safe)
    from that have "int i \<noteq> int ?m"
      by simp
    then have "elem_at (db_delete st (arr_db a) k) (arr_db a) (int i) = elem_at st (arr_db a) (int i)"
      by (simp only: elem_at_delete_index [OF k] if_False)
    with safe show ?thesis
      by (simp add: elem_at_put_size)
  qed
  have "arr_inv ?a ?st (butlast xs)"
    unfolding arr_inv_def
  proof (intro conjI allI impI)
    show "arr_size ?a = int (length (butlast xs))"
      by simp
  next
    fix i assume "i < length (butlast xs)"
    then have i: "i < ?m" "i < length xs" by simp_all
    from inv i(2) obtain bi where "elem_at st (arr_db a) (int i) = Some bi"
      "encode_value (xs ! i) = Inr bi" "logical_value (xs ! i) (arr_value_type a)"
      by (rule arr_inv_elem)
    with elem [OF i(1)] i
    show "logical_value (butlast xs ! i) (arr_value_type ?a)"
      and "\<exists>bv. elem_at ?st (arr_db ?a) (int i) = Some bv \<and> encode_value (butlast xs ! i) = Inr bv"
      by (simp_all add: nth_butlast)
  qed
  with pop show ?thesis
    by (intro that [of ?a ?st]) simp_all
qed

lemma peak_len_ge: "n \<le> peak_len ops n"
  by (induction ops n rule: peak_len.induct) auto

lemma logical_value_not_None: "logical_value v T \<Longrightarrow> v \<noteq> PNone"
  by (cases v) simp_all

lemma run_ops_inv:
  assumes "arr_inv a st xs"
    and "\<forall>v\<in>set (appended ops). logical_value v (arr_value_type a)"
    and "int (peak_len ops (length xs)) \<le> index_limit (scheme st)"
  shows "\<exists>a' st' log. run_ops ops (a, st) = Inr (a', st', log)
    \<and> arr_inv a' st' (model_ops ops xs)
    \<and> arr_db a' = arr_db a \<and> arr_value_type a' = arr_value_type a \<and> scheme st' = scheme st
    \<and> int (length (model_ops ops xs))
        = int (length xs) + int (length (appended ops))
          - int (length (filter (\<lambda>(n, r). n \<noteq> 0) log))
    \<and> (\<forall>(n, r)\<in>set log. n = 0 \<longleftrightarrow> r = PNone)"
  using assms
proof (induction ops arbitrary: a st xs)
  case Nil
  then show ?case by simp
next
  case (Cons op ops)
  show ?case
  proof (cases op)
    case (Append v)
    from Cons.prems(3) Append peak_len_ge [of "Suc (length xs)" ops]
    have lim: "int (length xs) < index_limit (scheme st)"
      and lim': "int (peak_len ops (length (xs @ [v]))) \<le> index_limit (scheme st)"
      by simp_all
    from Cons.prems(2) Append have v: "logical_value v (arr_value_type a)"
      and vs: "\<forall>v\<in>set (appended ops). logical_value v (arr_value_type a)"
      by simp_all
    from Cons.prems(1) v lim obtain a1 st1 where
      put: "ArrayDB_put a st v = Inr (a1, st1)" and inv1: "arr_inv a1 st1 (xs @ [v])"
      and same: "arr_db a1 = arr_db a" "arr_value_type a1 = arr_value_type a" "scheme st1 = scheme st"
      by (rule arr_inv_put)
    from Cons.IH [OF inv1] vs lim' same
    obtain a' st' log where "run_ops ops (a1, st1) = Inr (a', st', log)"
      "arr_inv a' st' (model_ops ops (xs @ [v]))"
      "arr_db a' = arr_db a" "arr_value_type a' = arr_value_type a" "scheme st' = scheme st"
      "int (length (model_ops ops (xs @ [v])))
        = int (length (xs @ [v])) + int (length (appended ops))
          - int (length (filter (\<lambda>(n, r). n \<noteq> 0) log))"
      "\<forall>(n, r)\<in>set log. n = 0 \<longleftrightarrow> r = PNone"
      by auto
    with put Append show ?thesis
      by (simp add: bind_err_def)
  next
    case Pop
    from Cons.prems(3) Pop peak_len_ge [of "length xs - 1" ops]
    have lim: "int (length xs) \<le> index_limit (scheme st)"
      and lim': "int (peak_len ops (length (butlast xs))) \<le> index_limit (scheme st)"
      by simp_all
    from Cons.prems(2) Pop
    have vs: "\<forall>v\<in>set (appended ops). logical_value v (arr_value_type a)"
      by simp
    show ?thesis
    proof (cases "xs = []")
      case True
      with Cons.prems(1) have sz: "arr_size a = 0"
        by (simp add: arr_inv_def)
      then have pop: "ArrayDB_pop a st = Inr (PNone, a, st)"
        by (rule ArrayDB_pop_empty)
      from Cons.IH [OF Cons.prems(1)] vs lim' True
      obtain a' st' log where "run_ops ops (a, st) = Inr (a', st', log)"
        "arr_inv a' st' (model_ops ops xs)"
        "arr_db a' = arr_db a" "arr_value_type a' = arr_value_type a" "scheme st' = scheme st"
        "int (length (model_ops ops xs))
          = int (length xs) + int (length (appended ops))
            - int (length (filter (\<lambda>(n, r). n \<noteq> 0) log))"
        "\<forall>(n, r)\<in>set log. n = 0 \<longleftrightarrow> r = PNone"
        by auto
      with pop Pop True sz show ?thesis
        by (simp add: bind_err_def)
    next
      case False
      from Cons.prems(1) False lim obtain a1 st1 where
        pop: "ArrayDB_pop a st = Inr (last xs, a1, st1)" and inv1: "arr_inv a1 st1 (butlast xs)"
        and same: "arr_db a1 = arr_db a" "arr_value_type a1 = arr_value_type a"
          "scheme st1 = scheme st"
        by (rule arr_inv_pop)
      from Cons.prems(1) False have sz: "arr_size a \<noteq> 0" "arr_size a = int (length xs)"
        by (simp_all add: arr_inv_def)
      from False have "length xs - 1 < length xs"
        by simp
      with Cons.prems(1) have "logical_value (xs ! (length xs - 1)) (arr_value_type a)"
        by (rule arr_inv_elem)
      with False have "logical_value (last xs) (arr_value_type a)"
        by (simp add: last_conv_nth)
      then have nn: "last xs \<noteq> PNone"
        by (rule logical_value_not_None)
      from Cons.IH [OF inv1] vs lim' same
      obtain a' st' log where "run_ops ops (a1, st1) = Inr (a', st', log)"
        "arr_inv a' st' (model_ops ops (butlast xs))"
        "arr_db a' = arr_db a" "arr_value_type a' = arr_value_type a" "scheme st' = scheme st"
        "int (length (model_ops ops (butlast xs)))
          = int (length (butlast xs)) + int (length (appended ops))
            - int (length (filter (\<lambda>(n, r). n \<noteq> 0) log))"
        "\<forall>(n, r)\<in>set log. n = 0 \<longleftrightarrow> r = PNone"
        by auto
      with pop Pop False sz nn show ?thesis
        by (simp add: bind_err_def of_nat_diff Suc_leI)
    qed
  qed
qed

lemma ArrayDB_init_fields:
  assumes "ArrayDB_init var_key db vt st = Inr a"
  shows "arr_value_type a = vt" "arr_size a = get_size_from_db st (arr_db a)"
  using assms by (auto simp: ArrayDB_init_def bind_err_def Let_def split: sum.splits)

lemma get_size_from_db_eq:
  "get_size_from_db st db =
     (case db_get st db SIZE_BYTE_KEY of None \<Rightarrow> 0 | Some bs \<Rightarrow> bytes_to_int bs)"
  by (simp add: get_size_from_db_def decode_object_def bind_err_def split: option.splits)

lemma ArrayDB_pop_unchanged_iff:
  "ArrayDB_pop b s = Inr (PNone, b, s) \<longleftrightarrow> arr_size b = 0"
proof
  assume "arr_size b = 0"
  then show "ArrayDB_pop b s = Inr (PNone, b, s)"
    by (rule ArrayDB_pop_empty)
next
  assume pop: "ArrayDB_pop b s = Inr (PNone, b, s)"
  show "arr_size b = 0"
  proof (rule ccontr)
    assume "arr_size b \<noteq> 0"
    with pop have "b\<lparr>arr_size := arr_size b - 1\<rparr> = b"
      by (auto simp: ArrayDB_pop_def ArrayDB__set_size_def bind_err_def Let_def
          split: sum.splits)
    then have "arr_size (b\<lparr>arr_size := arr_size b - 1\<rparr>) = arr_size b"
      by simp
    then show False
      by simp
  qed
qed

text \<open>
  Appends and pops within the limit. Take an array built over a store in which its size
  entry is absent, and a sequence of appends and pops whose appended values are of the
  element type and during which the length stays within \<open>index_limit\<close> of the store's
  scheme (\<open>1936292453\<close> under V1, \<open>2 ^ 439\<close> under V2). Then the run raises nothing; the reported length is the
  number of appends minus the number of pops that found a length other than 0; the array
  holds exactly the list that appending at the end and removing from the end produce, and
  \<open>get\<close> returns its elements by index; a pop returned \<^verbatim>\<open>None\<close> exactly when it found
  length 0; and \<open>pop\<close> leaves the array and the store untouched, returning \<^verbatim>\<open>None\<close>,
  exactly when the cached length is 0.
\<close>

lemma ArrayDB_append_pop:
  assumes init: "ArrayDB_init var_key db vt st0 = Inr a0"
    and empty: "db_get st0 (arr_db a0) SIZE_BYTE_KEY = None"
    and vals: "\<forall>v\<in>set (appended ops). logical_value v vt"
    and lim: "int (peak_len ops 0) \<le> index_limit (scheme st0)"
  shows "\<exists>a st log. run_ops ops (a0, st0) = Inr (a, st, log)
    \<and> ArrayDB_len a
        = int (length (appended ops)) - int (length (filter (\<lambda>(n, r). n \<noteq> 0) log))
    \<and> int (length (model_ops ops [])) = ArrayDB_len a
    \<and> (\<forall>i < length (model_ops ops []).
          ArrayDB_get a st (PInt (int i)) = Inr (model_ops ops [] ! i))
    \<and> (\<forall>(n, r)\<in>set log. n = 0 \<longleftrightarrow> r = PNone)
    \<and> (\<forall>b s. ArrayDB_pop b s = Inr (PNone, b, s) \<longleftrightarrow> arr_size b = 0)"
proof -
  from init empty have a0: "arr_value_type a0 = vt" "arr_size a0 = 0"
    by (simp_all add: ArrayDB_init_fields get_size_from_db_eq)
  then have inv0: "arr_inv a0 st0 []"
    by (simp add: arr_inv_def)
  from run_ops_inv [OF inv0, of ops] vals lim a0
  obtain a st log where run: "run_ops ops (a0, st0) = Inr (a, st, log)"
    and inv: "arr_inv a st (model_ops ops [])"
    and len: "int (length (model_ops ops []))
        = int (length (appended ops)) - int (length (filter (\<lambda>(n, r). n \<noteq> 0) log))"
    and log: "\<forall>(n, r)\<in>set log. n = 0 \<longleftrightarrow> r = PNone"
    by auto
  from inv have sz: "ArrayDB_len a = int (length (model_ops ops []))"
    by (simp add: arr_inv_def ArrayDB_len_def)
  have get: "\<forall>i < length (model_ops ops []).
          ArrayDB_get a st (PInt (int i)) = Inr (model_ops ops [] ! i)"
    using arr_inv_get [OF inv] by blast
  from run sz len get log show ?thesis
    by (simp add: ArrayDB_pop_unchanged_iff)
qed

lemma ArrayDB_init_example:
  "ArrayDB_init (PInt 1) root_db vt (empty_store sch) = Inr (example_array vt)"
  by (simp add: ArrayDB_init_def create_db_prefix_def key_eval get_sub_db_def root_db_def
      ARRAY_DB_ID_def example_array_def get_size_from_db_eq db_get_def empty_store_def)

lemma example_array_size_key [simp]:
  "db_get (empty_store sch) (arr_db (example_array vt)) k = None"
  by (simp add: db_get_def empty_store_def)

lemma ArrayDB_append_pop_example:
  "ArrayDB_init (PInt 1) root_db TStr (empty_store V2) = Inr (example_array TStr)
   \<and> db_get (empty_store V2) (arr_db (example_array TStr)) SIZE_BYTE_KEY = None
   \<and> logical_value (PStr [0x61]) TStr \<and> logical_value (PStr [0x62]) TStr
   \<and> logical_value (PStr [0x63]) TStr
   \<and> int (peak_len [Pop, Append (PStr [0x61]), Append (PStr [0x62]), Append (PStr [0x63]), Pop] 0)
        \<le> index_limit (scheme (empty_store V2))
   \<and> (\<exists>a st log.
          run_ops [Pop, Append (PStr [0x61]), Append (PStr [0x62]), Append (PStr [0x63]), Pop]
            (example_array TStr, empty_store V2) = Inr (a, st, log)
        \<and> ArrayDB_len a = 2
        \<and> ArrayDB_get a st (PInt 0) = Inr (PStr [0x61])
        \<and> ArrayDB_get a st (PInt 1) = Inr (PStr [0x62]))"
proof -
  let ?ops = "[Pop, Append (PStr [0x61]), Append (PStr [0x62]), Append (PStr [0x63]), Pop]"
  have h2: "db_get (empty_store V2) (arr_db (example_array TStr)) SIZE_BYTE_KEY = None"
    by simp
  have v: "logical_value (PStr [0x61]) TStr" "logical_value (PStr [0x62]) TStr"
    "logical_value (PStr [0x63]) TStr"
    by (simp_all add: wf_str_def)
  then have h3: "\<forall>v\<in>set (appended ?ops). logical_value v TStr"
    by simp
  have h4: "int (peak_len ?ops 0) \<le> index_limit (scheme (empty_store V2))"
    by (simp add: empty_store_def SHORT_KEY_BOUND_def)
  have m: "model_ops ?ops [] = [PStr [0x61], PStr [0x62]]"
    by simp
  from ArrayDB_append_pop [OF ArrayDB_init_example h2 h3 h4]
  obtain a st log where run: "run_ops ?ops (example_array TStr, empty_store V2) = Inr (a, st, log)"
    and len: "int (length (model_ops ?ops [])) = ArrayDB_len a"
    and get: "\<forall>i < length (model_ops ?ops []).
          ArrayDB_get a st (PInt (int i)) = Inr (model_ops ?ops [] ! i)"
    by blast
  from get have g: "i < 2 \<Longrightarrow> ArrayDB_get a st (PInt (int i)) = Inr ([PStr [0x61], PStr [0x62]] ! i)"
    for i
    unfolding m by simp
  from g [of 0] g [of 1] have "ArrayDB_get a st (PInt 0) = Inr (PStr [0x61])"
    and "ArrayDB_get a st (PInt 1) = Inr (PStr [0x62])"
    by simp_all
  with run len have "\<exists>a st log. run_ops ?ops (example_array TStr, empty_store V2) = Inr (a, st, log)
        \<and> ArrayDB_len a = 2
        \<and> ArrayDB_get a st (PInt 0) = Inr (PStr [0x61])
        \<and> ArrayDB_get a st (PInt 1) = Inr (PStr [0x62])"
    unfolding m by (intro exI [of _ a] exI [of _ st] exI [of _ log]) simp
  with h2 v h4 show ?thesis
    by (simp only: ArrayDB_init_example simp_thms)
qed

lemma appended_replicate: "appended (replicate n (Append v)) = replicate n v"
  by (induction n) simp_all

lemma peak_len_replicate: "peak_len (replicate n (Append v)) m = m + n"
  by (induction n arbitrary: m) (simp_all add: max_def)

lemma model_ops_replicate: "model_ops (replicate n (Append v)) xs = xs @ replicate n v"
  by (induction n arbitrary: xs) (simp_all add: replicate_append_same)

lemma run_ops_append:
  "run_ops (ops1 @ ops2) s =
     bind_err (run_ops ops1 s) (\<lambda>(a, st, log1).
     bind_err (run_ops ops2 (a, st)) (\<lambda>(a', st', log2). Inr (a', st', log1 @ log2)))"
proof (induction ops1 arbitrary: s)
  case Nil
  show ?case
    by (cases s) (simp add: bind_err_def split: sum.splits)
next
  case (Cons op ops1)
  obtain a st where s: "s = (a, st)" by (cases s)
  show ?case
  proof (cases op)
    case (Append v)
    then show ?thesis
      by (simp add: s Cons.IH bind_err_def split: sum.splits)
  next
    case Pop
    then show ?thesis
      by (simp add: s Cons.IH bind_err_def split: sum.splits prod.splits)
  qed
qed

text \<open>Appends alone: the cached size counts them, whatever the store holds.\<close>

lemma run_appends:
  assumes "0 \<le> arr_size a" "arr_size a + int n \<le> SHORT_KEY_BOUND" "encode_value v = Inr bv"
  shows "\<exists>a' st'. run_ops (replicate n (Append v)) (a, st) = Inr (a', st', [])
          \<and> arr_size a' = arr_size a + int n \<and> arr_db a' = arr_db a
          \<and> arr_value_type a' = arr_value_type a \<and> scheme st' = scheme st"
  using assms(1,2)
proof (induction n arbitrary: a st)
  case 0
  then show ?case by simp
next
  case (Suc n)
  from Suc.prems have "- SHORT_KEY_BOUND \<le> arr_size a" "arr_size a < SHORT_KEY_BOUND"
    using SHORT_KEY_BOUND_pos by simp_all
  from encoded_key_PInt [OF this] obtain k where k: "encoded_key (PInt (arr_size a)) = Inr k"
    by blast
  let ?a = "a\<lparr>arr_size := arr_size a + 1\<rparr>"
  let ?st = "db_put (db_put st (arr_db a) k bv) (arr_db a) SIZE_BYTE_KEY
            (int_to_bytes (arr_size a + 1))"
  have put: "ArrayDB_put a st v = Inr (?a, ?st)"
    using k assms(3) by (rule ArrayDB_put_eq)
  from Suc.prems have "0 \<le> arr_size ?a" "arr_size ?a + int n \<le> SHORT_KEY_BOUND"
    by simp_all
  from Suc.IH [OF this, of ?st] put show ?case
    by (auto simp: bind_err_def)
qed

lemma size_key_index:
  "encoded_key (PInt 1936292453)
     = Inr ([[0x73, 0x69, 0x7A, 0x65]], [[0x84, 0x73, 0x69, 0x7A, 0x65]])"
  by (simp add: encoded_key_def get_encoded_key_v1_def get_encoded_key_v2_def bind_err_def
      int_to_bytes_size rlp_encode_bytes_def py_bytes1_def)

lemma final_key_collision:
  "final_key V1 db ([[0x73, 0x69, 0x7A, 0x65]], [[0x84, 0x73, 0x69, 0x7A, 0x65]])
     = final_key V1 db SIZE_BYTE_KEY"
  by (simp add: final_key_def SIZE_BYTE_KEY_eq)

lemma put_over_size_key:
  assumes "scheme st = V1" "arr_size a = 1936292453" "arr_value_type a = TInt"
    and "ArrayDB_put a st (PInt x) = Inr (a', st')"
  shows "ArrayDB_get a' st' (PInt 1936292453) = Inr (PInt 1936292454)"
proof -
  have k: "encoded_key (PInt (arr_size a))
      = Inr ([[0x73, 0x69, 0x7A, 0x65]], [[0x84, 0x73, 0x69, 0x7A, 0x65]])"
    using size_key_index assms(2) by simp
  have ev: "encode_value (PInt x) = Inr (int_to_bytes x)"
    by simp
  from ArrayDB_put_eq [OF k ev, of st] assms(2,4)
  have a': "a' = a\<lparr>arr_size := 1936292454\<rparr>"
    and st': "st' = db_put (db_put st (arr_db a)
        ([[0x73, 0x69, 0x7A, 0x65]], [[0x84, 0x73, 0x69, 0x7A, 0x65]]) (int_to_bytes x))
        (arr_db a) SIZE_BYTE_KEY (int_to_bytes 1936292454)"
    by simp_all
  show ?thesis
    unfolding a' st'
    by (simp add: ArrayDB_get_def ArrayDB_getitem_def ArrayDB__get_def size_key_index
        bind_err_def db_get_put assms(1,3) final_key_collision decode_object_def
        bytes_to_int_int_to_bytes)
qed

lemma pop_over_size_key:
  assumes "scheme st = V1" "arr_size a = 1936292453" "arr_value_type a = TInt"
    and "ArrayDB_put a st (PInt x) = Inr (a', st')"
  shows "\<exists>a'' st''. ArrayDB_pop a' st' = Inr (PInt 1936292454, a'', st'')"
proof -
  let ?k = "([[0x73, 0x69, 0x7A, 0x65]], [[0x84, 0x73, 0x69, 0x7A, 0x65]]) :: key_candidates"
  have k: "encoded_key (PInt (arr_size a)) = Inr ?k"
    using size_key_index assms(2) by simp
  have ev: "encode_value (PInt x) = Inr (int_to_bytes x)"
    by simp
  from ArrayDB_put_eq [OF k ev, of st] assms(2,4)
  have a': "a' = a\<lparr>arr_size := 1936292454\<rparr>"
    and st': "st' = db_put (db_put st (arr_db a) ?k (int_to_bytes x))
        (arr_db a) SIZE_BYTE_KEY (int_to_bytes 1936292454)"
    by simp_all
  have pos: "0 < arr_size a'"
    by (simp add: a')
  have k': "encoded_key (PInt (arr_size a' - 1)) = Inr ?k"
    using size_key_index by (simp add: a')
  have dec: "decode_object (db_get st' (arr_db a') ?k) (arr_value_type a') = Inr (PInt 1936292454)"
    unfolding a' st'
    by (simp add: db_get_put assms(1,3) final_key_collision decode_object_def
        bytes_to_int_int_to_bytes bind_err_def)
  from ArrayDB_pop_eq [OF pos k' dec] show ?thesis
    by blast
qed

lemma get_after_v2:
  "get_after (replicate 1936292454 (Append (PInt 7))) (example_array TInt, empty_store V2)
        (PInt 1936292453) = Inr (PInt 7)"
proof -
  let ?ops = "replicate 1936292454 (Append (PInt 7))"
  have inv0: "arr_inv (example_array TInt) (empty_store V2) []"
    by (simp add: arr_inv_def example_array_def)
  have vals: "\<forall>v\<in>set (appended ?ops). logical_value v (arr_value_type (example_array TInt))"
    by (simp add: appended_replicate example_array_def)
  have lim: "int (peak_len ?ops (length ([] :: pyval list))) \<le> index_limit (scheme (empty_store V2))"
    by (simp add: peak_len_replicate empty_store_def SHORT_KEY_BOUND_def)
  from run_ops_inv [OF inv0 vals lim]
  obtain a st log where run: "run_ops ?ops (example_array TInt, empty_store V2) = Inr (a, st, log)"
    and inv: "arr_inv a st (replicate 1936292454 (PInt 7))"
    by (auto simp: model_ops_replicate)
  from arr_inv_get [OF inv, of 1936292453]
  have "ArrayDB_get a st (PInt 1936292453) = Inr (PInt 7)"
    by simp
  then show ?thesis
    unfolding get_after_def by (simp add: run bind_err_def)
qed

text \<open>
  C1. The claim is that after any sequence of appends and pops from an empty region the
  length is the number of appends minus the number of successful pops and \<open>get(i)\<close>
  returns the \<open>i\<close>-th value kept. The code breaks it under scheme V1 when the length
  reaches \<open>1936292454\<close>: the append at length \<open>1936292453\<close> writes its element under
  the V1 key of that index, which is the key of the size entry, and \<^verbatim>\<open>__set_size\<close>
  then writes the new size over it. After \<open>1936292454\<close> appends of \<open>7\<close>,
  \<open>get(1936292453)\<close> returns \<open>1936292454\<close> and so does \<open>pop\<close>, where the value appended
  last is \<open>7\<close>. Under scheme V2 the same \<open>get\<close> returns \<open>7\<close>.
\<close>

theorem append_pop_counterexample_v1:
  "ArrayDB_init (PInt 1) root_db TInt (empty_store V1) = Inr (example_array TInt)
   \<and> model_ops (replicate 1936292454 (Append (PInt 7))) [] ! 1936292453 = PInt 7
   \<and> get_after (replicate 1936292454 (Append (PInt 7))) (example_array TInt, empty_store V1)
        (PInt 1936292453) = Inr (PInt 1936292454)
   \<and> map_sum id (snd \<circ> snd)
        (run_ops (replicate 1936292454 (Append (PInt 7)) @ [Pop])
           (example_array TInt, empty_store V1))
       = Inr [(1936292454, PInt 1936292454)]
   \<and> get_after (replicate 1936292454 (Append (PInt 7))) (example_array TInt, empty_store V2)
        (PInt 1936292453) = Inr (PInt 7)"
proof -
  have split: "replicate 1936292454 (Append (PInt 7))
      = replicate 1936292453 (Append (PInt 7)) @ [Append (PInt 7)]"
    by (simp add: replicate_append_same flip: replicate_Suc)
  have "encode_value (PInt 7) = Inr (int_to_bytes 7)"
    by simp
  from run_appends [of "example_array TInt" 1936292453 "PInt 7", OF _ _ this, of "empty_store V1"]
  obtain a st where run: "run_ops (replicate 1936292453 (Append (PInt 7)))
        (example_array TInt, empty_store V1) = Inr (a, st, [])"
    and a: "arr_size a = 1936292453" "arr_value_type a = TInt" and st: "scheme st = V1"
    by (auto simp: example_array_def SHORT_KEY_BOUND_def empty_store_def)
  obtain k where k: "encoded_key (PInt (arr_size a)) = Inr k"
    using size_key_index a by simp
  have put: "ArrayDB_put a st (PInt 7) = Inr (a\<lparr>arr_size := arr_size a + 1\<rparr>,
      db_put (db_put st (arr_db a) k (int_to_bytes 7)) (arr_db a) SIZE_BYTE_KEY
        (int_to_bytes (arr_size a + 1)))" (is "_ = Inr (?a', ?st')")
    using ArrayDB_put_eq [OF k, of "PInt 7" "int_to_bytes 7" st] by simp
  from put_over_size_key [OF st a put]
  have get: "ArrayDB_get ?a' ?st' (PInt 1936292453) = Inr (PInt 1936292454)" .
  from pop_over_size_key [OF st a put]
  obtain a'' st'' where pop: "ArrayDB_pop ?a' ?st' = Inr (PInt 1936292454, a'', st'')"
    by blast
  from pop a have pop': "ArrayDB_pop (a\<lparr>arr_size := 1936292454\<rparr>)
      (db_put (db_put st (arr_db a) k (int_to_bytes 7)) (arr_db a) SIZE_BYTE_KEY
        (int_to_bytes 1936292454)) = Inr (PInt 1936292454, a'', st'')"
    by simp
  have run': "run_ops (replicate 1936292454 (Append (PInt 7))) (example_array TInt, empty_store V1)
      = Inr (?a', ?st', [])"
    unfolding split run_ops_append
    by (simp add: run put bind_err_def)
  have "get_after (replicate 1936292454 (Append (PInt 7))) (example_array TInt, empty_store V1)
        (PInt 1936292453) = Inr (PInt 1936292454)"
    unfolding get_after_def
    by (simp add: run' get bind_err_def)
  moreover have "map_sum id (snd \<circ> snd)
        (run_ops (replicate 1936292454 (Append (PInt 7)) @ [Pop])
           (example_array TInt, empty_store V1))
       = Inr [(1936292454, PInt 1936292454)]"
    unfolding run_ops_append
    by (simp add: run' pop' bind_err_def a)
  moreover have "model_ops (replicate 1936292454 (Append (PInt 7))) [] ! 1936292453 = PInt 7"
    by (simp add: model_ops_replicate)
  ultimately show ?thesis
    by (simp add: ArrayDB_init_example get_after_v2)
qed

subsection \<open>The cached size\<close>

lemma decode_object_TInt:
  "decode_object v TInt = Inr (PInt (case v of None \<Rightarrow> 0 | Some bs \<Rightarrow> bytes_to_int bs))"
  by (simp add: decode_object_def bind_err_def split: option.splits)

lemma size_consistent_iff:
  "size_consistent a st \<longleftrightarrow>
     arr_size a = (case db_get st (arr_db a) SIZE_BYTE_KEY of None \<Rightarrow> 0 | Some bs \<Rightarrow> bytes_to_int bs)"
  by (auto simp: size_consistent_def decode_object_TInt)

lemma size_consistent_set_size:
  "ArrayDB__set_size a st n = Inr (a', st') \<Longrightarrow> size_consistent a' st'"
  by (auto simp: ArrayDB__set_size_def bind_err_def size_consistent_iff db_get_put
      bytes_to_int_int_to_bytes)

lemma size_consistent_init:
  "ArrayDB_init var_key db vt st = Inr a \<Longrightarrow> size_consistent a st"
  by (auto simp: ArrayDB_init_def bind_err_def Let_def size_consistent_iff get_size_from_db_eq
      split: sum.splits)

lemma size_consistent_put:
  "ArrayDB_put a st v = Inr (a', st') \<Longrightarrow> size_consistent a' st'"
  by (auto simp: ArrayDB_put_def bind_err_def Let_def split: sum.splits
      dest: size_consistent_set_size)

lemma size_consistent_pop:
  assumes "ArrayDB_pop a st = Inr (r, a', st')" "arr_size a \<noteq> 0 \<or> size_consistent a st"
  shows "size_consistent a' st'"
proof (cases "arr_size a = 0")
  case True
  with assms show ?thesis
    by (simp add: ArrayDB_pop_def)
next
  case False
  with assms(1) show ?thesis
    by (auto simp: ArrayDB_pop_def bind_err_def Let_def split: sum.splits
        dest: size_consistent_set_size)
qed

lemma size_consistent_setitem:
  assumes set: "ArrayDB_setitem a st index v = Inr st'" and c: "size_consistent a st"
    and i: "index_int index = Some i"
    and safe: "scheme st = V2 \<or> resolved_index i (arr_size a) \<noteq> 1936292453"
  shows "size_consistent a st'"
proof -
  let ?j = "resolved_index i (arr_size a)"
  from set i have range: "0 \<le> ?j \<and> ?j < arr_size a"
    by (cases "0 \<le> ?j \<and> ?j < arr_size a") (simp_all add: ArrayDB_setitem_out_of_range)
  with set i obtain k bv where k: "encoded_key (PInt ?j) = Inr k"
    and st': "st' = db_put st (arr_db a) k bv"
    by (auto simp: ArrayDB_setitem_in_range bind_err_def split: sum.splits)
  from final_key_index_size [OF k safe, of "arr_db a"]
  have "db_get st' (arr_db a) SIZE_BYTE_KEY = db_get st (arr_db a) SIZE_BYTE_KEY"
    unfolding st' by (auto simp: db_get_put)
  with c show ?thesis
    by (simp add: size_consistent_iff)
qed

text \<open>
  The cached size along the operations. It equals the integer decoded from the size entry
  (an absent entry decoding to 0) after construction and after every \<open>put\<close>; after a
  \<open>pop\<close> that found a length other than 0 as well, and a \<open>pop\<close> at length 0 changes
  nothing; a \<open>set\<close> keeps the agreement whenever the scheme is V2 or the resolved index
  is not \<open>1936292453\<close>; and \<open>len\<close> returns the cached size, without consulting the store.
\<close>

lemma cached_size_consistent:
  "(ArrayDB_init var_key db vt st = Inr a \<longrightarrow> size_consistent a st)
   \<and> (ArrayDB_put a st v = Inr (a', st') \<longrightarrow> size_consistent a' st')
   \<and> (ArrayDB_pop a st = Inr (r, a', st') \<and> (arr_size a \<noteq> 0 \<or> size_consistent a st)
        \<longrightarrow> size_consistent a' st')
   \<and> (ArrayDB_setitem a st index v = Inr st' \<and> size_consistent a st
        \<and> index_int index = Some i
        \<and> (scheme st = V2 \<or> resolved_index i (arr_size a) \<noteq> 1936292453)
        \<longrightarrow> size_consistent a st')
   \<and> ArrayDB_len a = arr_size a"
  using size_consistent_init [of var_key db vt st a] size_consistent_put [of a st v a' st']
    size_consistent_pop [of a st r a' st'] size_consistent_setitem [of a st index v st' i]
  by (simp add: ArrayDB_len_def)

lemma cached_size_consistent_example:
  "ArrayDB_init (PInt 1) root_db TInt (empty_store V2) = Inr (example_array TInt)
   \<and> size_consistent (example_array TInt) (empty_store V2)
   \<and> (\<exists>a1 st1 st2 a3 st3.
         ArrayDB_put (example_array TInt) (empty_store V2) (PInt 5) = Inr (a1, st1)
       \<and> size_consistent a1 st1
       \<and> ArrayDB_setitem a1 st1 (PInt (- 1)) (PInt 6) = Inr st2
       \<and> index_int (PInt (- 1)) = Some (- 1) \<and> scheme st1 = V2
       \<and> size_consistent a1 st2
       \<and> ArrayDB_pop a1 st2 = Inr (PInt 6, a3, st3)
       \<and> size_consistent a3 st3 \<and> ArrayDB_len a3 = 0)"
proof -
  let ?a0 = "example_array TInt" and ?s0 = "empty_store V2"
  let ?k = "([[0]], [[0]]) :: key_candidates"
  have k: "encoded_key (PInt 0) = Inr ?k"
    by (simp add: key_eval)
  let ?a1 = "?a0\<lparr>arr_size := 1\<rparr>"
  let ?s1 = "db_put (db_put ?s0 (arr_db ?a0) ?k (int_to_bytes 5)) (arr_db ?a0) SIZE_BYTE_KEY
      (int_to_bytes 1)"
  let ?s2 = "db_put ?s1 (arr_db ?a0) ?k (int_to_bytes 6)"
  let ?s3 = "db_put (db_delete ?s2 (arr_db ?a0) ?k) (arr_db ?a0) SIZE_BYTE_KEY (int_to_bytes 0)"
  have put: "ArrayDB_put ?a0 ?s0 (PInt 5) = Inr (?a1, ?s1)"
    using ArrayDB_put_eq [of ?a0 ?k "PInt 5" "int_to_bytes 5" ?s0] k
    by (simp add: example_array_def)
  have set: "ArrayDB_setitem ?a1 ?s1 (PInt (- 1)) (PInt 6) = Inr ?s2"
    by (simp add: ArrayDB_setitem_def ArrayDB__put_def k bind_err_def)
  have sch: "scheme ?s1 = V2"
    by (simp add: empty_store_def)
  have pop: "ArrayDB_pop ?a1 ?s2 = Inr (PInt 6, ?a0, ?s3)"
    using ArrayDB_pop_eq [of ?a1 ?k ?s2 "PInt 6"] k
    by (simp add: example_array_def db_get_put decode_object_TInt bytes_to_int_int_to_bytes)
  note i = ArrayDB_init_example [of TInt V2]
  from cached_size_consistent [where var_key = "PInt 1" and db = root_db and vt = TInt
      and st = ?s0 and a = ?a0] i
  have c0: "size_consistent ?a0 ?s0"
    by simp
  from cached_size_consistent [where st = ?s0 and a = ?a0 and v = "PInt 5" and a' = ?a1
      and st' = ?s1] put
  have c1: "size_consistent ?a1 ?s1"
    by simp
  from cached_size_consistent [where st = ?s1 and a = ?a1 and st' = ?s2
      and index = "PInt (- 1)" and v = "PInt 6" and i = "- 1"] set c1 sch
  have c2: "size_consistent ?a1 ?s2"
    by simp
  from cached_size_consistent [where st = ?s2 and a = ?a1 and a' = ?a0 and st' = ?s3
      and r = "PInt 6"] pop c2
  have c3: "size_consistent ?a0 ?s3"
    by simp
  have "ArrayDB_len ?a0 = 0"
    by (simp add: ArrayDB_len_def example_array_def)
  with i c0 put c1 set sch c2 pop c3 show ?thesis
    by auto
qed

lemma sizes_after_set_v2:
  "sizes_after_set (replicate 1936292454 (Append (PInt 7))) (example_array TInt, empty_store V2)
        (PInt 1936292453) (PInt 0) = Inr (1936292454, Inr (PInt 1936292454))"
proof -
  have split: "replicate 1936292454 (Append (PInt 7))
      = replicate 1936292453 (Append (PInt 7)) @ [Append (PInt 7)]"
    by (simp add: replicate_append_same flip: replicate_Suc)
  have "encode_value (PInt 7) = Inr (int_to_bytes 7)"
    by simp
  from run_appends [of "example_array TInt" 1936292453 "PInt 7", OF _ _ this, of "empty_store V2"]
  obtain a st where run: "run_ops (replicate 1936292453 (Append (PInt 7)))
        (example_array TInt, empty_store V2) = Inr (a, st, [])"
    and a: "arr_size a = 1936292453" and st: "scheme st = V2"
    by (auto simp: example_array_def SHORT_KEY_BOUND_def empty_store_def)
  let ?k = "([[0x73, 0x69, 0x7A, 0x65]], [[0x84, 0x73, 0x69, 0x7A, 0x65]]) :: key_candidates"
  have k: "encoded_key (PInt (arr_size a)) = Inr ?k"
    using size_key_index a by simp
  let ?a' = "a\<lparr>arr_size := 1936292454\<rparr>"
  let ?st' = "db_put (db_put st (arr_db a) ?k (int_to_bytes 7)) (arr_db a) SIZE_BYTE_KEY
        (int_to_bytes 1936292454)"
  have put: "ArrayDB_put a st (PInt 7) = Inr (?a', ?st')"
    using ArrayDB_put_eq [OF k, of "PInt 7" "int_to_bytes 7" st] a by simp
  have run': "run_ops (replicate 1936292454 (Append (PInt 7))) (example_array TInt, empty_store V2)
      = Inr (?a', ?st', [])"
    unfolding split run_ops_append
    by (simp add: run put bind_err_def)
  let ?st2 = "db_put ?st' (arr_db a) ?k (int_to_bytes 0)"
  have set: "ArrayDB_setitem ?a' ?st' (PInt 1936292453) (PInt 0) = Inr ?st2"
    by (simp add: ArrayDB_setitem_def ArrayDB__put_def size_key_index bind_err_def)
  have c1: "size_consistent ?a' ?st'"
    using put by (rule size_consistent_put)
  have "size_consistent ?a' ?st2"
    using set c1 by (rule size_consistent_setitem) (simp_all add: st)
  then have "decode_object (db_get ?st2 (arr_db a) SIZE_BYTE_KEY) TInt = Inr (PInt 1936292454)"
    by (simp add: size_consistent_def)
  then show ?thesis
    unfolding sizes_after_set_def
    by (simp add: run' set bind_err_def ArrayDB_len_def)
qed

text \<open>
  C9. The claim is that after construction and after every \<open>put\<close>, \<open>pop\<close> and \<open>set\<close> the
  cached size equals the integer decoded from the size entry. \<open>put\<close> and \<open>pop\<close> write
  both through \<^verbatim>\<open>__set_size\<close>; \<^verbatim>\<open>__setitem__\<close> writes the element alone, and the code
  breaks the claim under scheme V1 where the element's key is the key of the size
  entry: on an array of length \<open>1936292454\<close>, reached by that many appends,
  \<open>set(1936292453, 0)\<close> succeeds and writes the encoding of \<open>0\<close> over the size entry, so
  that the cached size is \<open>1936292454\<close> and the decoded size entry is \<open>0\<close>. Under
  scheme V2 the same calls leave both at \<open>1936292454\<close>.
\<close>

theorem cached_size_counterexample_v1:
  "ArrayDB_init (PInt 1) root_db TInt (empty_store V1) = Inr (example_array TInt)
   \<and> sizes_after_set (replicate 1936292454 (Append (PInt 7))) (example_array TInt, empty_store V1)
        (PInt 1936292453) (PInt 0) = Inr (1936292454, Inr (PInt 0))
   \<and> sizes_after_set (replicate 1936292454 (Append (PInt 7))) (example_array TInt, empty_store V2)
        (PInt 1936292453) (PInt 0) = Inr (1936292454, Inr (PInt 1936292454))"
proof -
  have "encode_value (PInt 7) = Inr (int_to_bytes 7)"
    by simp
  from run_appends [of "example_array TInt" 1936292454 "PInt 7", OF _ _ this, of "empty_store V1"]
  obtain a st where run: "run_ops (replicate 1936292454 (Append (PInt 7)))
        (example_array TInt, empty_store V1) = Inr (a, st, [])"
    and a: "arr_size a = 1936292454" and st: "scheme st = V1"
    by (auto simp: example_array_def SHORT_KEY_BOUND_def empty_store_def)
  have set: "ArrayDB_setitem a st (PInt 1936292453) (PInt 0)
      = Inr (db_put st (arr_db a) ([[0x73, 0x69, 0x7A, 0x65]], [[0x84, 0x73, 0x69, 0x7A, 0x65]])
               (int_to_bytes 0))"
    by (simp add: ArrayDB_setitem_def ArrayDB__put_def a size_key_index bind_err_def)
  have "sizes_after_set (replicate 1936292454 (Append (PInt 7))) (example_array TInt, empty_store V1)
        (PInt 1936292453) (PInt 0) = Inr (1936292454, Inr (PInt 0))"
    unfolding sizes_after_set_def
    by (simp add: run set bind_err_def ArrayDB_len_def a st db_get_put final_key_collision
        decode_object_TInt bytes_to_int_int_to_bytes)
  then show ?thesis
    by (simp add: ArrayDB_init_example sizes_after_set_v2)
qed


subsection \<open>Two arrays under one parent\<close>

lemma final_key_append:
  "final_key sch db k = concat (candidate sch (db_prefix db)) @ concat (candidate sch k)"
  by (simp add: final_key_def)

lemma entries_db_put:
  "K \<noteq> final_key (scheme st) db k \<Longrightarrow> entries (db_put st db k v) K = entries st K"
  by (simp add: db_put_def)

lemma entries_db_delete:
  "K \<noteq> final_key (scheme st) db k \<Longrightarrow> entries (db_delete st db k) K = entries st K"
  by (simp add: db_delete_def)

lemma ArrayDB_put_frame:
  assumes "ArrayDB_put b st v = Inr (b', st')"
  shows "arr_db b' = arr_db b \<and> scheme st' = scheme st
    \<and> (\<forall>K. (\<forall>y. K \<noteq> concat (candidate (scheme st) (db_prefix (arr_db b))) @ y)
          \<longrightarrow> entries st' K = entries st K)"
  using assms
  by (auto simp: ArrayDB_put_def ArrayDB__put_def ArrayDB__set_size_def bind_err_def Let_def
      final_key_append entries_db_put split: sum.splits)

lemma ArrayDB_pop_frame:
  assumes "ArrayDB_pop b st = Inr (r, b', st')"
  shows "arr_db b' = arr_db b \<and> scheme st' = scheme st
    \<and> (\<forall>K. (\<forall>y. K \<noteq> concat (candidate (scheme st) (db_prefix (arr_db b))) @ y)
          \<longrightarrow> entries st' K = entries st K)"
  using assms
  by (auto simp: ArrayDB_pop_def ArrayDB__set_size_def bind_err_def Let_def
      final_key_append entries_db_put entries_db_delete split: sum.splits if_splits)

lemma ArrayDB_setitem_frame:
  assumes "ArrayDB_setitem b st index v = Inr st'"
  shows "scheme st' = scheme st
    \<and> (\<forall>K. (\<forall>y. K \<noteq> concat (candidate (scheme st) (db_prefix (arr_db b))) @ y)
          \<longrightarrow> entries st' K = entries st K)"
  using assms
  by (auto simp: ArrayDB_setitem_def ArrayDB__put_def bind_err_def Let_def
      final_key_append entries_db_put split: sum.splits option.splits if_splits)

lemma array_steps_frame:
  assumes "array_steps s t"
  shows "arr_db (fst t) = arr_db (fst s) \<and> scheme (snd t) = scheme (snd s)
    \<and> (\<forall>K. (\<forall>y. K \<noteq> concat (candidate (scheme (snd s)) (db_prefix (arr_db (fst s)))) @ y)
          \<longrightarrow> entries (snd t) K = entries (snd s) K)"
  using assms
proof (induction rule: array_steps.induct)
  case (steps_refl s)
  show ?case by simp
next
  case (steps_put s b st v b' st')
  from ArrayDB_put_frame [OF steps_put.hyps(2)] steps_put.IH show ?case
    by simp
next
  case (steps_pop s b st r b' st')
  from ArrayDB_pop_frame [OF steps_pop.hyps(2)] steps_pop.IH show ?case
    by simp
next
  case (steps_set s b st index v st')
  from ArrayDB_setitem_frame [OF steps_set.hyps(2)] steps_set.IH show ?case
    by simp
qed


lemma ArrayDB_init_handle:
  assumes "ArrayDB_init k db vt s = Inr a"
  obtains e1 e2 where "encode_key k = Inr e1" "rlp_encode_bytes e1 = Inr e2"
    "arr_db a = get_sub_db db ([ARRAY_DB_ID, e1], [ARRAY_DB_ID, e2])"
  using assms
  by (auto simp: ArrayDB_init_def create_db_prefix_def get_encoded_key_v1_def
      get_encoded_key_v2_def bind_err_def Let_def split: sum.splits)

lemma prefix_sub:
  "concat (candidate sch (db_prefix (get_sub_db db ([c, e1], [c, e2]))))
     = concat (candidate sch (db_prefix db)) @ c @ (case sch of V1 \<Rightarrow> e1 | V2 \<Rightarrow> e2)"
  by (cases "db_prefix db"; cases sch) (simp_all add: get_sub_db_def)

lemma not_prefix_related:
  assumes "\<not> prefix ea eb" "\<not> prefix eb ea"
  shows "ea @ x \<noteq> eb @ y"
proof
  assume "ea @ x = eb @ y"
  then obtain u where "ea = eb @ u \<or> ea @ u = eb"
    by (auto simp: append_eq_append_conv2)
  with assms show False
    by (auto simp: prefix_def)
qed

lemma ArrayDB_reads_frame:
  assumes "db_get st' (arr_db a) = db_get st (arr_db a)"
  shows "ArrayDB_get a st' index = ArrayDB_get a st index"
    and "ArrayDB_iter a st' = ArrayDB_iter a st"
  unfolding ArrayDB_get_def ArrayDB_getitem_def ArrayDB__get_def ArrayDB_iter_def assms
  by (rule refl)+

lemma ArrayDB_init_frame:
  assumes "ArrayDB_init k db vt s = Inr a"
    and "db_get st' (arr_db a) = db_get st (arr_db a)"
  shows "ArrayDB_init k db vt st' = ArrayDB_init k db vt st"
  using assms
  by (auto simp: ArrayDB_init_def bind_err_def Let_def get_size_from_db_def split: sum.splits)

text \<open>
  C5, amended. Take two arrays built under the same parent handle from var_keys whose
  encoded keys differ, over a store that resolves every key under one scheme; if that
  scheme is V1, let neither encoded key be a prefix of the other. Then no sequence of
  successful \<open>put\<close>, \<open>pop\<close> and \<open>set\<close> calls on one of them (a call that raises writes
  nothing) changes any entry that the other reads: not what \<open>get\<close> returns at any index
  nor what the iteration returns, not its persisted size entry, so that its cached length
  agrees with the size entry after the calls exactly if it did before, and not the array
  that a new construction from the same var_key yields, with the length it reports.
\<close>

theorem ArrayDB_non_aliasing:
  assumes a: "ArrayDB_init ka db vta sa = Inr a" and b: "ArrayDB_init kb db vtb sb = Inr b"
    and ea: "encode_key ka = Inr ea" and eb: "encode_key kb = Inr eb"
    and ne: "ea \<noteq> eb"
    and v1: "scheme st = V1 \<longrightarrow> \<not> prefix ea eb \<and> \<not> prefix eb ea"
    and steps: "array_steps (b, st) (b', st')"
  shows "db_get st' (arr_db a) = db_get st (arr_db a)
    \<and> ArrayDB_get a st' index = ArrayDB_get a st index
    \<and> ArrayDB_iter a st' = ArrayDB_iter a st
    \<and> get_size_from_db st' (arr_db a) = get_size_from_db st (arr_db a)
    \<and> size_consistent a st' = size_consistent a st
    \<and> ArrayDB_init ka db vta st' = ArrayDB_init ka db vta st"
proof -
  from a ea obtain ea2 where ea2: "rlp_encode_bytes ea = Inr ea2"
    and ha: "arr_db a = get_sub_db db ([ARRAY_DB_ID, ea], [ARRAY_DB_ID, ea2])"
    by (auto elim: ArrayDB_init_handle)
  from b eb obtain eb2 where eb2: "rlp_encode_bytes eb = Inr eb2"
    and hb: "arr_db b = get_sub_db db ([ARRAY_DB_ID, eb], [ARRAY_DB_ID, eb2])"
    by (auto elim: ArrayDB_init_handle)
  let ?sch = "scheme st"
  let ?P = "concat (candidate ?sch (db_prefix db)) @ ARRAY_DB_ID"
  let ?ka = "case ?sch of V1 \<Rightarrow> ea | V2 \<Rightarrow> ea2"
  let ?kb = "case ?sch of V1 \<Rightarrow> eb | V2 \<Rightarrow> eb2"
  from array_steps_frame [OF steps]
  have sch: "scheme st' = ?sch"
    and frame: "\<And>K. (\<forall>y. K \<noteq> (?P @ ?kb) @ y) \<Longrightarrow> entries st' K = entries st K"
    by (simp_all add: hb prefix_sub)
  have apart: "?ka @ x \<noteq> ?kb @ y" for x y
  proof (cases ?sch)
    case V1
    with v1 show ?thesis
      by (simp add: not_prefix_related)
  next
    case V2
    have "ea2 @ x \<noteq> eb2 @ y"
    proof
      assume "ea2 @ x = eb2 @ y"
      with ea2 eb2 have "ea = eb"
        by (rule rlp_encode_bytes_prefix_free)
      with ne show False ..
    qed
    with V2 show ?thesis
      by simp
  qed
  have "db_get st' (arr_db a) k = db_get st (arr_db a) k" for k
  proof -
    let ?K = "(?P @ ?ka) @ concat (candidate ?sch k)"
    have "?K \<noteq> (?P @ ?kb) @ y" for y
      using apart [of "concat (candidate ?sch k)" y] by simp
    then have "entries st' ?K = entries st ?K"
      by (intro frame) simp
    then show ?thesis
      by (simp add: db_get_def sch final_key_append ha prefix_sub)
  qed
  then have eq: "db_get st' (arr_db a) = db_get st (arr_db a)"
    by (rule ext)
  from ArrayDB_reads_frame [OF eq] ArrayDB_init_frame [OF a eq] eq show ?thesis
    by (simp add: get_size_from_db_def size_consistent_def)
qed


lemma scheme_empty_store [simp]: "scheme (empty_store sch) = sch"
  by (simp add: empty_store_def)

lemma db_get_empty_store [simp]: "db_get (empty_store sch) db k = None"
  by (simp add: db_get_def empty_store_def)

lemma scheme_store_with_five [simp]: "scheme store_with_five = V2"
  by (simp add: store_with_five_def)

lemma put_five:
  "ArrayDB_put (example_array TInt) (empty_store V2) (PInt 5)
     = Inr ((example_array TInt)\<lparr>arr_size := 1\<rparr>, store_with_five)"
proof -
  have k: "encoded_key (PInt (arr_size (example_array TInt))) = Inr ([[0x00]], [[0x00]])"
    by (simp add: example_array_def key_eval)
  have v: "encode_value (PInt 5) = Inr [0x05]"
    by (simp add: int_to_bytes.simps)
  from ArrayDB_put_eq [OF k v, of "empty_store V2"] show ?thesis
    by (simp add: store_with_five_def example_array_def int_to_bytes.simps)
qed

lemma init_after_five:
  "ArrayDB_init (PInt 1) root_db TInt store_with_five = Inr ((example_array TInt)\<lparr>arr_size := 1\<rparr>)"
  by (simp add: ArrayDB_init_def create_db_prefix_def key_eval get_sub_db_def root_db_def
      ARRAY_DB_ID_def example_array_def get_size_from_db_eq store_with_five_def db_get_put)

lemma init_bytes_key:
  "ArrayDB_init (PBytes [0x01]) root_db TInt (empty_store V2) = Inr (example_array TInt)"
  by (simp add: ArrayDB_init_def create_db_prefix_def key_eval get_sub_db_def root_db_def
      ARRAY_DB_ID_def example_array_def get_size_from_db_eq db_get_def empty_store_def)

lemma key_zero: "encoded_key (PInt 0) = Inr ([[0x00]], [[0x00]])"
  by (simp add: key_eval)

lemma get_five:
  "ArrayDB_get ((example_array TInt)\<lparr>arr_size := 1\<rparr>) store_with_five (PInt 0) = Inr (PInt 5)"
  by (simp add: ArrayDB_get_def ArrayDB_getitem_def ArrayDB__get_def key_zero bind_err_def
      store_with_five_def db_get_put example_array_def final_key_def SIZE_BYTE_KEY_eq
      decode_object_TInt)

lemma init_array_a:
  "ArrayDB_init (PBytes [0x61]) root_db TInt (empty_store V1) = Inr array_a"
  by (simp add: ArrayDB_init_def create_db_prefix_def key_eval get_sub_db_def root_db_def
      ARRAY_DB_ID_def array_a_def get_size_from_db_eq db_get_def empty_store_def)

lemma init_array_a1:
  "ArrayDB_init (PBytes [0x61, 0x01]) root_db TInt (empty_store V1) = Inr array_a1"
  by (simp add: ArrayDB_init_def create_db_prefix_def key_eval get_sub_db_def root_db_def
      ARRAY_DB_ID_def array_a1_def get_size_from_db_eq db_get_def empty_store_def)

lemma key_256: "encoded_key (PInt 256) = Inr ([[0x01, 0x00]], [[0x82, 0x01, 0x00]])"
  by (simp add: key_eval)

lemma get_around_put_v1:
  "get_around_put (replicate 257 (Append (PInt 0))) (array_a, empty_store V1) array_a1
       (PInt 5) (PInt 256) = Inr (PInt 0, PInt 5)"
proof -
  let ?ops = "replicate 257 (Append (PInt 0))"
  have inv0: "arr_inv array_a (empty_store V1) []"
    by (simp add: arr_inv_def array_a_def)
  have vals: "\<forall>v\<in>set (appended ?ops). logical_value v (arr_value_type array_a)"
    by (simp add: appended_replicate array_a_def)
  have lim: "int (peak_len ?ops (length ([] :: pyval list))) \<le> index_limit (scheme (empty_store V1))"
    by (simp add: peak_len_replicate)
  from run_ops_inv [OF inv0 vals lim]
  obtain a st log where run: "run_ops ?ops (array_a, empty_store V1) = Inr (a, st, log)"
    and inv: "arr_inv a st (replicate 257 (PInt 0))"
    and a: "arr_db a = arr_db array_a" "arr_value_type a = TInt" and st: "scheme st = V1"
    by (auto simp: model_ops_replicate array_a_def)
  from inv have sz: "arr_size a = 257"
    by (simp add: arr_inv_def)
  from arr_inv_get [OF inv, of 256]
  have get1: "ArrayDB_get a st (PInt 256) = Inr (PInt 0)"
    by simp
  have k0: "encoded_key (PInt (arr_size array_a1)) = Inr ([[0x00]], [[0x00]])"
    by (simp add: array_a1_def key_eval)
  have v: "encode_value (PInt 5) = Inr [0x05]"
    by (simp add: int_to_bytes.simps)
  let ?st' = "db_put (db_put st (arr_db array_a1) ([[0x00]], [[0x00]]) [0x05])
      (arr_db array_a1) SIZE_BYTE_KEY (int_to_bytes (arr_size array_a1 + 1))"
  have put: "ArrayDB_put array_a1 st (PInt 5) = Inr (array_a1\<lparr>arr_size := arr_size array_a1 + 1\<rparr>, ?st')"
    using k0 v by (rule ArrayDB_put_eq)
  have get2: "ArrayDB_get a ?st' (PInt 256) = Inr (PInt 5)"
    by (simp add: ArrayDB_get_def ArrayDB_getitem_def ArrayDB__get_def key_256 bind_err_def
        sz a st db_get_put array_a_def array_a1_def final_key_def SIZE_BYTE_KEY_eq
        decode_object_TInt)
  show ?thesis
    unfolding get_around_put_def
    by (simp add: run get1 put get2 bind_err_def)
qed

text \<open>
  C5, as stated, fails in two ways. The integer \<open>1\<close> and the byte string \<^verbatim>\<open>b'\x01'\<close>
  are distinct var_keys with the same encoded key under both schemes, so the two arrays
  are one region: after \<open>put(5)\<close> on the first, \<open>get(0)\<close> on it is \<open>5\<close>; the second, built
  over the empty store, still has cached size 0, and its \<open>put(7)\<close> turns \<open>get(0)\<close> on the
  first into \<open>7\<close>. Under scheme V1 the prefixes are not framed: the V1 keys of the var_keys
  \<^verbatim>\<open>b'a'\<close> and \<^verbatim>\<open>b'a\x01'\<close> differ, but the first is a prefix of the second, and the
  element of index \<open>256\<close> (bytes \<^verbatim>\<open>01 00\<close>) of the first array has the store key of the
  element of index \<open>0\<close> of the second. After 257 appends of \<open>0\<close> to the first array,
  \<open>get(256)\<close> on it is \<open>0\<close>; a \<open>put(5)\<close> on the second array turns it into \<open>5\<close>.
\<close>

theorem aliasing_counterexample:
  "PInt 1 \<noteq> PBytes [0x01]
   \<and> ArrayDB_init (PInt 1) root_db TInt (empty_store V2) = Inr (example_array TInt)
   \<and> ArrayDB_init (PBytes [0x01]) root_db TInt (empty_store V2) = Inr (example_array TInt)
   \<and> ArrayDB_put (example_array TInt) (empty_store V2) (PInt 5)
       = Inr ((example_array TInt)\<lparr>arr_size := 1\<rparr>, store_with_five)
   \<and> ArrayDB_get ((example_array TInt)\<lparr>arr_size := 1\<rparr>) store_with_five (PInt 0) = Inr (PInt 5)
   \<and> put_then_get (example_array TInt) store_with_five (PInt 7)
         ((example_array TInt)\<lparr>arr_size := 1\<rparr>) (PInt 0) = Inr (PInt 7)
   \<and> encode_key (PBytes [0x61]) = Inr [0x61]
   \<and> encode_key (PBytes [0x61, 0x01]) = Inr [0x61, 0x01]
   \<and> ArrayDB_init (PBytes [0x61]) root_db TInt (empty_store V1) = Inr array_a
   \<and> ArrayDB_init (PBytes [0x61, 0x01]) root_db TInt (empty_store V1) = Inr array_a1
   \<and> get_around_put (replicate 257 (Append (PInt 0))) (array_a, empty_store V1) array_a1
         (PInt 5) (PInt 256) = Inr (PInt 0, PInt 5)"
proof -
  note k = key_zero and get = get_five
  have k0: "encoded_key (PInt (arr_size (example_array TInt))) = Inr ([[0x00]], [[0x00]])"
    by (simp add: example_array_def key_eval)
  have v: "encode_value (PInt 7) = Inr [0x07]"
    by (simp add: int_to_bytes.simps)
  have "put_then_get (example_array TInt) store_with_five (PInt 7)
         ((example_array TInt)\<lparr>arr_size := 1\<rparr>) (PInt 0) = Inr (PInt 7)"
    unfolding put_then_get_def ArrayDB_put_eq [OF k0 v]
    by (simp add: bind_err_def ArrayDB_get_def ArrayDB_getitem_def ArrayDB__get_def k
        db_get_put example_array_def final_key_def SIZE_BYTE_KEY_eq decode_object_TInt)
  with get show ?thesis
    by (simp add: ArrayDB_init_example init_bytes_key put_five init_array_a init_array_a1
        get_around_put_v1)
qed


theorem ArrayDB_non_aliasing_witness:
  "ArrayDB_init (PInt 1) root_db TInt store_with_five
     = Inr ((example_array TInt)\<lparr>arr_size := 1\<rparr>)
   \<and> encode_key (PInt 1) = Inr [0x01] \<and> encode_key (PInt 2) = Inr [0x02]
   \<and> [0x01::byte] \<noteq> [0x02]
   \<and> \<not> prefix [0x01::byte] [0x02] \<and> \<not> prefix [0x02::byte] [0x01]
   \<and> (\<exists>b b' st'. ArrayDB_init (PInt 2) root_db TInt store_with_five = Inr b
         \<and> ArrayDB_put b store_with_five (PInt 7) = Inr (b', st')
         \<and> array_steps (b, store_with_five) (b', st')
         \<and> ArrayDB_get b' st' (PInt 0) = Inr (PInt 7)
         \<and> ArrayDB_get ((example_array TInt)\<lparr>arr_size := 1\<rparr>) st' (PInt 0) = Inr (PInt 5)
         \<and> get_size_from_db st' (arr_db (example_array TInt)) = 1
         \<and> ArrayDB_init (PInt 1) root_db TInt st' = Inr ((example_array TInt)\<lparr>arr_size := 1\<rparr>))"
proof -
  let ?a = "(example_array TInt)\<lparr>arr_size := 1\<rparr>"
  let ?b = "\<lparr>arr_db = \<lparr>db_is_root = False, db_prefix = ([[0x00], [0x02]], [[0x00], [0x02::byte]])\<rparr>,
      arr_value_type = TInt, arr_size = 0\<rparr>"
  let ?b' = "?b\<lparr>arr_size := 1\<rparr>"
  let ?st' = "db_put (db_put store_with_five (arr_db ?b) ([[0x00]], [[0x00]]) [0x07])
      (arr_db ?b) SIZE_BYTE_KEY [0x01]"
  have ib: "ArrayDB_init (PInt 2) root_db TInt store_with_five = Inr ?b"
    by (simp add: ArrayDB_init_def create_db_prefix_def key_eval get_sub_db_def root_db_def
        ARRAY_DB_ID_def example_array_def get_size_from_db_eq store_with_five_def db_get_put
        SIZE_BYTE_KEY_eq final_key_def)
  have e1: "encode_key (PInt 1) = Inr [0x01]" and e2: "encode_key (PInt 2) = Inr [0x02]"
    by (simp_all add: int_to_bytes.simps)
  have ne: "[0x01::byte] \<noteq> [0x02]"
    by simp
  have np: "\<not> prefix [0x01::byte] [0x02]" "\<not> prefix [0x02::byte] [0x01]"
    by simp_all
  then have v1: "scheme store_with_five = V1 \<longrightarrow> \<not> prefix [0x01::byte] [0x02] \<and> \<not> prefix [0x02::byte] [0x01]"
    by simp
  have k0: "encoded_key (PInt (arr_size ?b)) = Inr ([[0x00]], [[0x00]])"
    by (simp add: key_eval)
  have v: "encode_value (PInt 7) = Inr [0x07]"
    by (simp add: int_to_bytes.simps)
  from ArrayDB_put_eq [OF k0 v, of store_with_five]
  have put: "ArrayDB_put ?b store_with_five (PInt 7) = Inr (?b', ?st')"
    by (simp add: int_to_bytes.simps)
  have steps: "array_steps (?b, store_with_five) (?b', ?st')"
    by (rule steps_put [OF steps_refl put])
  have getb: "ArrayDB_get ?b' ?st' (PInt 0) = Inr (PInt 7)"
    by (simp add: ArrayDB_get_def ArrayDB_getitem_def ArrayDB__get_def key_zero bind_err_def
        db_get_put final_key_def SIZE_BYTE_KEY_eq decode_object_TInt)
  have sz: "get_size_from_db store_with_five (arr_db (example_array TInt)) = 1"
    by (simp add: get_size_from_db_eq store_with_five_def db_get_put)
  note na = ArrayDB_non_aliasing [OF init_after_five ib e1 e2 ne v1 steps, of "PInt 0"]
  from na get_five have geta: "ArrayDB_get ?a ?st' (PInt 0) = Inr (PInt 5)"
    by simp
  from na sz have sza: "get_size_from_db ?st' (arr_db (example_array TInt)) = 1"
    by simp
  from na init_after_five have inita: "ArrayDB_init (PInt 1) root_db TInt ?st' = Inr ?a"
    by simp
  from ib put steps getb geta sza inita have "\<exists>b b' st'.
        ArrayDB_init (PInt 2) root_db TInt store_with_five = Inr b
         \<and> ArrayDB_put b store_with_five (PInt 7) = Inr (b', st')
         \<and> array_steps (b, store_with_five) (b', st')
         \<and> ArrayDB_get b' st' (PInt 0) = Inr (PInt 7)
         \<and> ArrayDB_get ?a st' (PInt 0) = Inr (PInt 5)
         \<and> get_size_from_db st' (arr_db (example_array TInt)) = 1
         \<and> ArrayDB_init (PInt 1) root_db TInt st' = Inr ?a"
    by blast
  with init_after_five e1 e2 ne np show ?thesis
    by simp
qed

end
